theory Spec2Isabelle
  imports Main
begin

section \<open>JavaScript strings and the built-ins the validators call\<close>

text \<open>
  A JavaScript string is a sequence of code units. The model takes \<^typ>\<open>string\<close>, a list
  of 8-bit characters, and reads each character as the code unit of the same number, so it
  covers the texts whose code units lie below 256 (ASCII and Latin-1). Every built-in
  below is the JavaScript one restricted to that range.
\<close>

abbreviation SQ :: char where "SQ \<equiv> CHR 0x27"
abbreviation DQ :: char where "DQ \<equiv> CHR 0x22"
abbreviation BSL :: char where "BSL \<equiv> CHR 0x5C"

definition code :: "char \<Rightarrow> nat" where
  "code c = of_char c"

text \<open>White space and line terminators: what \<^verbatim>\<open>trim()\<close> strips and \<^verbatim>\<open>\s\<close> matches
  (tab, LF, VT, FF, CR, space, no-break space).\<close>

definition isWhiteSpace :: "char \<Rightarrow> bool" where
  "isWhiteSpace c = (code c = 9 \<or> code c = 10 \<or> code c = 11 \<or> code c = 12 \<or> code c = 13
     \<or> code c = 32 \<or> code c = 160)"

text \<open>The characters \<^verbatim>\<open>.\<close> does not match.\<close>

definition isLineTerminator :: "char \<Rightarrow> bool" where
  "isLineTerminator c = (code c = 10 \<or> code c = 13)"

definition isAsciiUpper :: "char \<Rightarrow> bool" where
  "isAsciiUpper c = (65 \<le> code c \<and> code c \<le> 90)"

definition isAsciiLower :: "char \<Rightarrow> bool" where
  "isAsciiLower c = (97 \<le> code c \<and> code c \<le> 122)"

definition isDigit :: "char \<Rightarrow> bool" where
  "isDigit c = (48 \<le> code c \<and> code c \<le> 57)"

text \<open>\<^verbatim>\<open>\w\<close>, and so the two sides of \<^verbatim>\<open>\b\<close>.\<close>

definition isWordChar :: "char \<Rightarrow> bool" where
  "isWordChar c = (isAsciiUpper c \<or> isAsciiLower c \<or> isDigit c \<or> c = CHR ''_'')"

text \<open>\<^verbatim>\<open>toLowerCase()\<close> on one code unit: A-Z, and the Latin-1 capitals
  0xC0-0xDE without the multiplication sign 0xD7, move up by 32.\<close>

definition lowerChar :: "char \<Rightarrow> char" where
  "lowerChar c =
     (if isAsciiUpper c \<or> (192 \<le> code c \<and> code c \<le> 222 \<and> code c \<noteq> 215)
      then char_of (code c + 32) else c)"

definition toLowerCase :: "string \<Rightarrow> string" where
  "toLowerCase s = map lowerChar s"

text \<open>Whether \<^verbatim>\<open>c === c.toUpperCase()\<close> for a one-character string: false exactly for the
  characters that upper-casing changes (a-z, the micro sign 0xB5, and 0xDF-0xFF without
  the division sign 0xF7).\<close>

definition fixedByToUpperCase :: "char \<Rightarrow> bool" where
  "fixedByToUpperCase c =
     (\<not> (isAsciiLower c \<or> code c = 181 \<or> (223 \<le> code c \<and> code c \<noteq> 247)))"

text \<open>Canonicalisation of a regular expression with the \<^verbatim>\<open>i\<close> flag and without the
  \<^verbatim>\<open>u\<close> flag, as far as a comparison with an ASCII pattern character can see it: a
  character above 127 never canonicalises to an ASCII one.\<close>

definition canon :: "char \<Rightarrow> char" where
  "canon c = (if isAsciiLower c then char_of (code c - 32) else c)"

text \<open>An ASCII literal of a case-insensitive pattern, matched at the start of the text:
  the text left after it, if it matches.\<close>

fun litCI :: "string \<Rightarrow> string \<Rightarrow> string option" where
  "litCI [] s = Some s"
| "litCI (p # ps) [] = None"
| "litCI (p # ps) (c # cs) = (if canon c = canon p then litCI ps cs else None)"

definition trim :: "string \<Rightarrow> string" where
  "trim s = rev (dropWhile isWhiteSpace (rev (dropWhile isWhiteSpace s)))"

text \<open>\<^verbatim>\<open>s.split(sep)\<close> for a one-character separator.\<close>

fun split :: "char \<Rightarrow> string \<Rightarrow> string list" where
  "split sep [] = [[]]"
| "split sep (c # cs) =
     (if c = sep then [] # split sep cs
      else (c # hd (split sep cs)) # tl (split sep cs))"

definition endsWith :: "string \<Rightarrow> char \<Rightarrow> bool" where
  "endsWith s c = (s \<noteq> [] \<and> last s = c)"

definition includesChar :: "string \<Rightarrow> char \<Rightarrow> bool" where
  "includesChar s c = (c \<in> set s)"

section \<open>Statement safety scanner (\<^verbatim>\<open>syntaxScan\<close>)\<close>

record validation_result =
  ok :: bool
  issues :: "string list"

record scan_acc = validation_result +
  syntaxOk :: bool

text \<open>The keywords of \<^verbatim>\<open>DISALLOWED\<close>; entry \<open>kw\<close> stands for the expression
  \<^verbatim>\<open>/\bkw\b/i\<close>.\<close>

definition DISALLOWED :: "string list" where
  "DISALLOWED = [''DROP'', ''TRUNCATE'', ''ALTER'', ''CREATE'', ''INSERT'', ''UPDATE'',
     ''DELETE'', ''MERGE'', ''COPY'', ''PUT'', ''GET'']"

definition rx_source :: "string \<Rightarrow> string" where
  "rx_source kw = [BSL, CHR ''b''] @ kw @ [BSL, CHR ''b'']"

text \<open>\<^verbatim>\<open>/\bkw\b/i\<close> at one position: \<open>prev\<close> is the character before it, if any. The
  keyword is made of word characters, so \<^verbatim>\<open>\b\<close> in front asks for no word character
  before, and \<^verbatim>\<open>\b\<close> behind for no word character after.\<close>

definition wordHere :: "string \<Rightarrow> char option \<Rightarrow> string \<Rightarrow> bool" where
  "wordHere kw prev s =
     ((case prev of None \<Rightarrow> True | Some p \<Rightarrow> \<not> isWordChar p) \<and>
      (case litCI kw s of None \<Rightarrow> False
       | Some rest \<Rightarrow> (case rest of [] \<Rightarrow> True | c # _ \<Rightarrow> \<not> isWordChar c)))"

fun wordSearch :: "string \<Rightarrow> char option \<Rightarrow> string \<Rightarrow> bool" where
  "wordSearch kw prev [] = wordHere kw prev []"
| "wordSearch kw prev (c # cs) = (wordHere kw prev (c # cs) \<or> wordSearch kw (Some c) cs)"

definition rx_test :: "string \<Rightarrow> string \<Rightarrow> bool" where
  "rx_test kw sql = wordSearch kw None sql"

text \<open>The number of matches of a two-character literal under the \<^verbatim>\<open>g\<close> flag: the search
  goes on behind each match.\<close>

fun countPair :: "char \<Rightarrow> char \<Rightarrow> string \<Rightarrow> nat" where
  "countPair a b (x # y # zs) =
     (if x = a \<and> y = b then Suc (countPair a b zs) else countPair a b (y # zs))"
| "countPair a b _ = 0"

definition flag :: "scan_acc \<Rightarrow> string \<Rightarrow> scan_acc" where
  "flag res issue = res\<lparr>ok := False, syntaxOk := False, issues := issues res @ [issue]\<rparr>"

definition syntaxScan :: "string \<Rightarrow> validation_result" where
  "syntaxScan sql =
     (let res = \<lparr>ok = True, issues = [], syntaxOk = True\<rparr>;
          cleanedSql = trim sql;
          semis = length (split (CHR '';'') cleanedSql) - 1;
          endsWithSemi = endsWith cleanedSql (CHR '';'');
          res = (if semis > 1 \<or> (semis = 1 \<and> \<not> endsWithSemi)
                 then flag res ''Multiple statements detected.'' else res);
          res = foldl (\<lambda>res rx. if rx_test rx sql
                                 then flag res (''Disallowed token: '' @ rx_source rx) else res)
                      res DISALLOWED;
          openComments = countPair (CHR ''/'') (CHR ''*'') sql;
          closeComments = countPair (CHR ''*'') (CHR ''/'') sql;
          res = (if openComments \<noteq> closeComments
                 then flag res ''Unclosed or unmatched block comment.'' else res)
      in \<lparr>ok = ok res, issues = issues res\<rparr>)"

section \<open>The schema registry and the finalized plan\<close>

text \<open>
  Modelled from the spec: the declarations of \<^verbatim>\<open>EntityJson\<close> and \<^verbatim>\<open>FinalizedPlan\<close>, which lie
  outside the files at hand. The records hold the fields of the spec's data model, under
  the names the validators read them by. \<^verbatim>\<open>_dimIndex\<close>, \<^verbatim>\<open>_metricIndex\<close> and
  \<^verbatim>\<open>_measureIndex\<close> are only asked \<^verbatim>\<open>has\<close>, so each is the set of its keys;
  \<^verbatim>\<open>_reverseAliasIndex\<close> maps an alias to its canonical name; \<open>measure_list\<close> is the field
  \<^verbatim>\<open>measures\<close>, \<open>edge_from\<close> and \<open>edge_to\<close> are \<^verbatim>\<open>from\<close> and \<^verbatim>\<open>to\<close>, and \<open>intent_timeRange\<close>
  says whether \<^verbatim>\<open>intent.timeRange\<close> is present. A \<^verbatim>\<open>Map\<close> keeps its entries in insertion
  order under unique keys: the registry is the list of its entries.
\<close>

record named =
  name :: string

record dimension = named +
  aliases :: "string list option"

record entity = named +
  table :: string
  dimensions :: "dimension list"
  time_dimensions :: "named list"
  measure_list :: "named list"
  dimIndex :: "string set"
  metricIndex :: "string set"
  measureIndex :: "string set"
  reverseAliasIndex :: "string \<rightharpoonup> string"

type_synonym registry = "(string \<times> entity) list"

definition has :: "registry \<Rightarrow> string \<Rightarrow> bool" where
  "has registry k = (map_of registry k \<noteq> None)"

record join_edge =
  edge_from :: string
  edge_to :: string

record intent =
  intent_dimensions :: "string list option"
  intent_metrics :: "string list option"
  intent_timeRange :: bool

record plan =
  selectedEntities :: "string list"
  joinGraph :: "join_edge list"
  intent :: intent

section \<open>Quote normalizer (\<^verbatim>\<open>normalizeSQLiteQuotes\<close>)\<close>

definition identifiersOf :: "entity \<Rightarrow> string set" where
  "identifiersOf ent =
     {name ent, table ent}
     \<union> (\<Union>d \<in> set (dimensions ent).
          insert (name d) (case aliases d of None \<Rightarrow> {} | Some as \<Rightarrow> set as))
     \<union> name ` set (time_dimensions ent)
     \<union> name ` set (measure_list ent)"

definition knownIdentifiers :: "registry \<Rightarrow> string set" where
  "knownIdentifiers registry = (\<Union>kv \<in> set registry. identifiersOf (snd kv))"

definition sqlKeywords :: "string set" where
  "sqlKeywords = {''select'', ''from'', ''where'', ''group'', ''by'', ''order'', ''having'',
     ''join'', ''left'', ''right'', ''inner'', ''outer'', ''on'', ''as'', ''and'', ''or'',
     ''not'', ''count'', ''sum'', ''avg'', ''min'', ''max'', ''distinct'', ''limit'',
     ''offset''}"

text \<open>\<^verbatim>\<open>/^[a-z_][a-z0-9_]*$/i\<close>.\<close>

definition identPattern :: "string \<Rightarrow> bool" where
  "identPattern token =
     (case token of [] \<Rightarrow> False
      | c # cs \<Rightarrow> (isAsciiUpper c \<or> isAsciiLower c \<or> c = CHR ''_'') \<and> list_all isWordChar cs)"

definition isIdentifier :: "string set \<Rightarrow> string \<Rightarrow> bool" where
  "isIdentifier known token =
     (token \<in> known \<or> toLowerCase token \<in> known \<or> toLowerCase token \<in> sqlKeywords
      \<or> identPattern token)"

text \<open>\<^verbatim>\<open>token.replace(/'/g, "''")\<close>.\<close>

definition escapeToken :: "string \<Rightarrow> string" where
  "escapeToken token = concat (map (\<lambda>c. if c = SQ then [SQ, SQ] else [c]) token)"

definition emitToken :: "string set \<Rightarrow> string \<Rightarrow> string" where
  "emitToken known token =
     (if isIdentifier known token then [DQ] @ token @ [DQ]
      else [SQ] @ escapeToken token @ [SQ])"

text \<open>
  The three loops over the cursor \<open>i\<close>, each a function of the text from \<open>i\<close> on that returns
  what is appended to \<open>result\<close> from there to the end: \<open>scanOuter\<close> is the main loop,
  \<open>scanSingle\<close> the loop inside a single-quoted span (\<open>prev\<close> is \<^verbatim>\<open>sql[i - 1]\<close>, the opening
  quote at first), \<open>scanDouble\<close> the loop that collects \<open>token\<close>. At the end of the text
  every loop stops; a token cut off by the end is still classified and emitted.
\<close>

fun scanOuter :: "string set \<Rightarrow> string \<Rightarrow> string"
  and scanSingle :: "string set \<Rightarrow> char \<Rightarrow> string \<Rightarrow> string"
  and scanDouble :: "string set \<Rightarrow> string \<Rightarrow> string \<Rightarrow> string" where
  "scanOuter known [] = []"
| "scanOuter known (ch # rest) =
     (if ch = SQ then ch # scanSingle known ch rest
      else if ch = DQ then scanDouble known [] rest
      else ch # scanOuter known rest)"
| "scanSingle known prev [] = []"
| "scanSingle known prev (c # rest) =
     c # (if c = SQ \<and> prev \<noteq> BSL then scanOuter known rest else scanSingle known c rest)"
| "scanDouble known token [] = emitToken known token"
| "scanDouble known token (c # rest) =
     (if c \<noteq> DQ then scanDouble known (token @ [c]) rest
      else emitToken known token @ scanOuter known rest)"

definition normalizeSQLiteQuotes :: "string \<Rightarrow> registry \<Rightarrow> string" where
  "normalizeSQLiteQuotes sql registry = scanOuter (knownIdentifiers registry) sql"

section \<open>Semantic validator (\<^verbatim>\<open>semanticCheck\<close>)\<close>

record semantic_result = validation_result +
  semanticOk :: bool

text \<open>
  \<^verbatim>\<open>verifyAllowedTables\<close> is the external policy, a parameter of the check: it returns, or it
  throws a value \<open>e\<close>. \<open>ThrownNullish\<close> is a thrown \<^verbatim>\<open>null\<close> or \<^verbatim>\<open>undefined\<close>; \<open>Thrown m s\<close> is any
  other thrown value, an object or a primitive, whose \<^verbatim>\<open>e.message\<close>, as text, is \<open>m\<close> (\<open>None\<close>
  when it is \<^verbatim>\<open>undefined\<close> or \<^verbatim>\<open>null\<close>) and whose \<^verbatim>\<open>String(e)\<close> is \<open>s\<close>.
\<close>

datatype thrown = ThrownNullish | Thrown "string option" string

type_synonym policy = "registry \<Rightarrow> thrown + unit"

text \<open>What a call can raise by itself.\<close>

datatype js_error = TypeError

text \<open>\<^verbatim>\<open>String(e.message ?? e)\<close> in the handler: reading \<^verbatim>\<open>e.message\<close> of \<^verbatim>\<open>null\<close> or
  \<^verbatim>\<open>undefined\<close> raises a \<^verbatim>\<open>TypeError\<close>, and the handler has no handler of its own.\<close>

fun thrownText :: "thrown \<Rightarrow> js_error + string" where
  "thrownText ThrownNullish = Inl TypeError"
| "thrownText (Thrown (Some m) s) = Inr m"
| "thrownText (Thrown None s) = Inr s"

definition notLoaded :: "string \<Rightarrow> string" where
  "notLoaded e = ''Selected entity '' @ [DQ] @ e @ [DQ] @ '' not loaded.''"

definition joinFromMissing :: "string \<Rightarrow> string" where
  "joinFromMissing e = ''Join edge from missing entity '' @ [DQ] @ e @ [DQ] @ ''.''"

definition joinToMissing :: "string \<Rightarrow> string" where
  "joinToMissing e = ''Join edge to missing entity '' @ [DQ] @ e @ [DQ] @ ''.''"

definition dimensionNotFound :: "string \<Rightarrow> string" where
  "dimensionNotFound d =
     ''Dimension '' @ [DQ] @ d @ [DQ] @ '' not found in selected entities or aliases.''"

definition metricNotFound :: "string \<Rightarrow> string" where
  "metricNotFound m =
     ''Metric/measure '' @ [DQ] @ m @ [DQ] @ '' not found in selected entities or aliases.''"

definition hasTimeDim :: "entity \<Rightarrow> string \<Rightarrow> bool" where
  "hasTimeDim ent fieldName = list_ex (\<lambda>td. name td = fieldName) (time_dimensions ent)"

text \<open>The checks of \<^verbatim>\<open>existsInAnyEntity\<close> on one entity; the dotted branch and the loop
  over the registry run the same ones. \<^verbatim>\<open>if (canonical)\<close> is false for a missing alias
  and for the empty string.\<close>

definition existsInEntity :: "bool \<Rightarrow> bool \<Rightarrow> entity \<Rightarrow> string \<Rightarrow> bool" where
  "existsInEntity checkDimensions checkTime ent fieldName =
     (if checkDimensions \<and> fieldName \<in> dimIndex ent then True
      else if checkTime \<and> hasTimeDim ent fieldName then True
      else (case reverseAliasIndex ent fieldName of
              None \<Rightarrow> False
            | Some canonical \<Rightarrow>
                canonical \<noteq> [] \<and>
                ((checkDimensions \<and> canonical \<in> dimIndex ent) \<or>
                 (checkTime \<and> hasTimeDim ent canonical))))"

text \<open>\<^verbatim>\<open>const [entityName, fieldName] = name.split('.')\<close>: a name with a dot splits into
  two pieces at least.\<close>

definition existsInAnyEntity :: "registry \<Rightarrow> string \<Rightarrow> bool \<Rightarrow> bool \<Rightarrow> bool" where
  "existsInAnyEntity registry nm checkDimensions checkTime =
     (if includesChar nm (CHR ''.'') then
        (case split (CHR ''.'') nm of
           entityName # fieldName # _ \<Rightarrow>
             (case map_of registry entityName of
                None \<Rightarrow> False
              | Some ent \<Rightarrow> existsInEntity checkDimensions checkTime ent fieldName)
         | _ \<Rightarrow> False)
      else list_ex (\<lambda>kv. existsInEntity checkDimensions checkTime (snd kv) nm) registry)"

definition metricInEntity :: "entity \<Rightarrow> string \<Rightarrow> bool" where
  "metricInEntity ent fieldName =
     (if fieldName \<in> metricIndex ent \<or> fieldName \<in> measureIndex ent then True
      else (case reverseAliasIndex ent fieldName of
              None \<Rightarrow> False
            | Some canonical \<Rightarrow>
                canonical \<noteq> [] \<and>
                (canonical \<in> metricIndex ent \<or> canonical \<in> measureIndex ent)))"

definition metricOrMeasureExists :: "registry \<Rightarrow> string \<Rightarrow> bool" where
  "metricOrMeasureExists registry nm =
     (if includesChar nm (CHR ''.'') then
        (case split (CHR ''.'') nm of
           entityName # fieldName # _ \<Rightarrow>
             (case map_of registry entityName of
                None \<Rightarrow> False
              | Some ent \<Rightarrow> metricInEntity ent fieldName)
         | _ \<Rightarrow> False)
      else list_ex (\<lambda>kv. metricInEntity (snd kv) nm) registry)"

text \<open>\<^verbatim>\<open>x ?? []\<close>.\<close>

definition orEmpty :: "'a list option \<Rightarrow> 'a list" where
  "orEmpty x = (case x of None \<Rightarrow> [] | Some xs \<Rightarrow> xs)"

text \<open>One loop that pushes \<open>msg x\<close> for every \<open>x\<close> failing \<open>good\<close>.\<close>

definition pushEach :: "('a \<Rightarrow> bool) \<Rightarrow> ('a \<Rightarrow> string) \<Rightarrow> string list \<Rightarrow> 'a list \<Rightarrow> string list" where
  "pushEach good msg iss xs = foldl (\<lambda>iss x. if \<not> good x then iss @ [msg x] else iss) iss xs"

definition pushJoin :: "registry \<Rightarrow> string list \<Rightarrow> join_edge \<Rightarrow> string list" where
  "pushJoin registry iss j =
     (let iss = (if \<not> has registry (edge_from j)
                 then iss @ [joinFromMissing (edge_from j)] else iss)
      in if \<not> has registry (edge_to j) then iss @ [joinToMissing (edge_to j)] else iss)"

text \<open>The result is \<open>Inr\<close> of what the function returns, or \<open>Inl\<close> of the error it raises:
  an error raised inside the \<^verbatim>\<open>catch\<close> block leaves the function.\<close>

definition semanticCheck ::
    "policy \<Rightarrow> plan \<Rightarrow> string \<Rightarrow> registry \<Rightarrow> js_error + semantic_result" where
  "semanticCheck verifyAllowedTables plan sql registry =
     (let issues = [] in
      case (case verifyAllowedTables registry of
              Inl e \<Rightarrow> (case thrownText e of
                          Inl err \<Rightarrow> Inl err
                        | Inr m \<Rightarrow> Inr (issues @ [m]))
            | Inr _ \<Rightarrow> Inr issues) of
        Inl err \<Rightarrow> Inl err
      | Inr issues \<Rightarrow>
         (let issues = pushEach (has registry) notLoaded issues (selectedEntities plan);
              issues = foldl (pushJoin registry) issues (joinGraph plan);
              issues = pushEach (\<lambda>d. existsInAnyEntity registry d True True) dimensionNotFound
                         issues (orEmpty (intent_dimensions (intent plan)));
              issues = pushEach (metricOrMeasureExists registry) metricNotFound
                         issues (orEmpty (intent_metrics (intent plan)));
              issues = (if intent_timeRange (intent plan) then
                          (let hasTimeDim =
                                 list_ex (\<lambda>kv. time_dimensions (snd kv) \<noteq> []) registry
                           in if \<not> hasTimeDim
                              then issues
                                @ [''Time range provided but no time dimensions available.'']
                              else issues)
                        else issues);
              ok = (issues = [])
          in Inr \<lparr>ok = ok, issues = issues, semanticOk = ok\<rparr>))"

section \<open>Error classifiers (\<^verbatim>\<open>isColumnNotFound\<close>, \<^verbatim>\<open>isQuoteSyntaxError\<close>)\<close>

text \<open>
  The argument \<^verbatim>\<open>err: any\<close>: \<open>Nullish\<close> is \<^verbatim>\<open>null\<close> or \<^verbatim>\<open>undefined\<close>; \<open>ErrValue m s\<close> is any
  other value, \<open>m\<close> the text of its \<^verbatim>\<open>message\<close> (\<open>None\<close> when that is \<^verbatim>\<open>null\<close> or
  \<^verbatim>\<open>undefined\<close>) and \<open>s\<close> its \<^verbatim>\<open>String(err)\<close>.
\<close>

datatype err_value = Nullish | ErrValue "string option" string

text \<open>\<^verbatim>\<open>String(err?.message ?? err ?? '')\<close>.\<close>

fun errMessage :: "err_value \<Rightarrow> string" where
  "errMessage Nullish = []"
| "errMessage (ErrValue (Some m) s) = m"
| "errMessage (ErrValue None s) = s"

record column_not_found_info =
  missingColumns :: "string list"

record quote_syntax_info =
  message :: string
  needsSingleQuotes :: "bool option"
  needsDoubleQuotes :: "bool option"

definition isQuote :: "char \<Rightarrow> bool" where
  "isQuote c = (c = SQ \<or> c = DQ)"

text \<open>
  A pattern \<^verbatim>\<open>lit\s*['"]([^'"]+)['"]\<close> with the \<^verbatim>\<open>i\<close> flag, tried at the start of the text:
  the matched text, the captured name and the text behind the match. Each greedy run is
  followed by a character outside its class, so giving characters back never helps and
  the longest runs decide.
\<close>

definition quotedAfter :: "string \<Rightarrow> string \<Rightarrow> (string \<times> string \<times> string) option" where
  "quotedAfter lit s =
     (case litCI lit s of
        None \<Rightarrow> None
      | Some r1 \<Rightarrow>
          (case dropWhile isWhiteSpace r1 of
             [] \<Rightarrow> None
           | q # r2 \<Rightarrow>
               (let nm = takeWhile (\<lambda>c. \<not> isQuote c) r2;
                    r3 = dropWhile (\<lambda>c. \<not> isQuote c) r2
                in if isQuote q \<and> nm \<noteq> [] \<and> r3 \<noteq> []
                   then Some (take (length s - length (tl r3)) s, nm, tl r3)
                   else None)))"

text \<open>\<^verbatim>\<open>s.match(rx)\<close> without the \<^verbatim>\<open>g\<close> flag: the leftmost match.\<close>

fun firstQuoted :: "string \<Rightarrow> string \<Rightarrow> (string \<times> string \<times> string) option" where
  "firstQuoted lit [] = quotedAfter lit []"
| "firstQuoted lit (c # cs) =
     (case quotedAfter lit (c # cs) of
        Some m \<Rightarrow> Some m
      | None \<Rightarrow> firstQuoted lit cs)"

text \<open>\<^verbatim>\<open>msg.match(rx)\<close> with the \<^verbatim>\<open>g\<close> flag: the matched texts, left to right, each search
  starting behind the match before it.\<close>

function allQuoted :: "string \<Rightarrow> string \<Rightarrow> string list" where
  "allQuoted lit s =
     (case quotedAfter lit s of
        Some (m, nm, rest) \<Rightarrow> m # allQuoted lit rest
      | None \<Rightarrow> (case s of [] \<Rightarrow> [] | c # cs \<Rightarrow> allQuoted lit cs))"
  by pat_completeness auto
termination
proof (relation "measure (\<lambda>(lit, s). length s)")
  fix lit s :: string and x2 x y x2a ya
  assume "quotedAfter lit s = Some x2" "(x, y) = x2" "(x2a, ya) = y"
  then have q: "quotedAfter lit s = Some (x, x2a, ya)" by simp
  then obtain r1 q' r2 where r1: "litCI lit s = Some r1"
    and r2: "dropWhile isWhiteSpace r1 = q' # r2"
    and ya: "ya = tl (dropWhile (\<lambda>c. \<not> isQuote c) r2)"
    by (auto simp: quotedAfter_def Let_def split: option.splits list.splits if_splits)
  have "litCI l t = Some r \<Longrightarrow> length r \<le> length t" for l t r
    by (induction l t rule: litCI.induct) (auto split: if_splits)
  then have "length r1 \<le> length s"
    using r1 by blast
  moreover have "length (q' # r2) \<le> length r1"
    using length_dropWhile_le [of isWhiteSpace r1] r2 by simp
  moreover have "length ya \<le> length r2"
    using length_dropWhile_le [of "\<lambda>c. \<not> isQuote c" r2] ya by simp
  ultimately show "((lit, ya), (lit, s)) \<in> measure (\<lambda>(lit, s). length s)"
    by simp
qed auto

declare allQuoted.simps [simp del]

text \<open>\<^verbatim>\<open>Array.from(new Set(xs))\<close>: a \<^verbatim>\<open>Set\<close> keeps the order in which values first came.\<close>

definition fromSet :: "string list \<Rightarrow> string list" where
  "fromSet xs = foldl (\<lambda>seen x. if x \<in> set seen then seen else seen @ [x]) [] xs"

text \<open>\<^verbatim>\<open>.*lit\<close> at the start of the text, for the \<^verbatim>\<open>test\<close> of a pattern that ends there.\<close>

fun dotStarThen :: "string \<Rightarrow> string \<Rightarrow> bool" where
  "dotStarThen lit [] = (litCI lit [] \<noteq> None)"
| "dotStarThen lit (c # cs) =
     (litCI lit (c # cs) \<noteq> None \<or> (\<not> isLineTerminator c \<and> dotStarThen lit cs))"

text \<open>\<^verbatim>\<open>/column .* not found/i.test(msg)\<close>.\<close>

fun columnAnyNotFound :: "string \<Rightarrow> bool" where
  "columnAnyNotFound [] = False"
| "columnAnyNotFound (c # cs) =
     ((case litCI ''column '' (c # cs) of
         None \<Rightarrow> False
       | Some r \<Rightarrow> dotStarThen '' not found'' r)
      \<or> columnAnyNotFound cs)"

text \<open>\<^verbatim>\<open>/column ([^ ]+) not found/i\<close> at the start of the text: the captured name.\<close>

definition columnNotFoundAt :: "string \<Rightarrow> string option" where
  "columnNotFoundAt s =
     (case litCI ''column '' s of
        None \<Rightarrow> None
      | Some r \<Rightarrow>
          (let nm = takeWhile (\<lambda>c. c \<noteq> CHR '' '') r;
               r2 = dropWhile (\<lambda>c. c \<noteq> CHR '' '') r
           in if nm \<noteq> [] \<and> litCI '' not found'' r2 \<noteq> None then Some nm else None))"

fun firstColumnNotFound :: "string \<Rightarrow> string option" where
  "firstColumnNotFound [] = None"
| "firstColumnNotFound (c # cs) =
     (case columnNotFoundAt (c # cs) of
        Some nm \<Rightarrow> Some nm
      | None \<Rightarrow> firstColumnNotFound cs)"

definition isColumnNotFound :: "err_value \<Rightarrow> column_not_found_info option" where
  "isColumnNotFound err =
     (let msg = errMessage err;
          m = allQuoted ''invalid identifier'' msg
      in if m \<noteq> [] then
           (let cols = fromSet (filter (\<lambda>x. x \<noteq> [])
                  (map (\<lambda>s. case firstQuoted ''invalid identifier'' s of
                              Some (_, nm, _) \<Rightarrow> nm
                            | None \<Rightarrow> []) m))
            in Some \<lparr>missingColumns = cols\<rparr>)
         else if columnAnyNotFound msg then
           (let c = (case firstColumnNotFound msg of Some nm \<Rightarrow> nm | None \<Rightarrow> [])
            in Some \<lparr>missingColumns =
                 (if c \<noteq> [] then [filter (\<lambda>x. \<not> isQuote x) c] else [])\<rparr>)
         else None)"

text \<open>A case-insensitive ASCII literal somewhere in the text.\<close>

fun containsCI :: "string \<Rightarrow> string \<Rightarrow> bool" where
  "containsCI lit [] = (litCI lit [] \<noteq> None)"
| "containsCI lit (c # cs) = (litCI lit (c # cs) \<noteq> None \<or> containsCI lit cs)"

text \<open>\<^verbatim>\<open>/^[A-Z_]+$/\<close>.\<close>

definition capsOnly :: "string \<Rightarrow> bool" where
  "capsOnly s = (s \<noteq> [] \<and> list_all (\<lambda>c. isAsciiUpper c \<or> c = CHR ''_'') s)"

definition singleQuotesHint :: "string \<Rightarrow> quote_syntax_info" where
  "singleQuotesHint msg =
     \<lparr>message = msg, needsSingleQuotes = Some True, needsDoubleQuotes = None\<rparr>"

text \<open>The second test of \<^verbatim>\<open>isQuoteSyntaxError\<close>; the captured name is never empty.\<close>

definition looksLikeLiteral :: "string \<Rightarrow> bool" where
  "looksLikeLiteral msg =
     (containsCI ''no such column'' msg \<and>
      (case firstQuoted ''no such column:'' msg of
         None \<Rightarrow> False
       | Some (_, colName, _) \<Rightarrow>
           (case colName of
              [] \<Rightarrow> False
            | c # _ \<Rightarrow> fixedByToUpperCase c \<and> \<not> capsOnly colName)))"

definition isQuoteSyntaxError :: "err_value \<Rightarrow> quote_syntax_info option" where
  "isQuoteSyntaxError err =
     (let msg = errMessage err
      in if containsCI ''unrecognized token'' msg \<and> DQ \<in> set msg
         then Some (singleQuotesHint msg)
         else if looksLikeLiteral msg
         then Some (singleQuotesHint msg)
         else if (containsCI ''syntax error'' msg \<or> containsCI ''near'' msg) \<and> DQ \<in> set msg
         then Some (singleQuotesHint msg)
         else None)"

section \<open>Notions the properties are stated with\<close>

text \<open>
  Where the scan of a text stands after its last character: outside any quoted span,
  inside a single-quoted one (with the character read last), or inside a double-quoted one.
\<close>

datatype quote_state = Outside | InSingle char | InDouble

fun quoteStep :: "quote_state \<Rightarrow> char \<Rightarrow> quote_state" where
  "quoteStep Outside c = (if c = SQ then InSingle c else if c = DQ then InDouble else Outside)"
| "quoteStep (InSingle prev) c = (if c = SQ \<and> prev \<noteq> BSL then Outside else InSingle c)"
| "quoteStep InDouble c = (if c = DQ then Outside else InDouble)"

definition quoteState :: "string \<Rightarrow> quote_state" where
  "quoteState s = foldl quoteStep Outside s"

text \<open>
  The double-quoted tokens of a text, left to right: each runs from a double quote that
  opens outside a single-quoted span to the next double quote, or to the end of the text.
\<close>

fun tokensOuter :: "string \<Rightarrow> string list"
  and tokensSingle :: "char \<Rightarrow> string \<Rightarrow> string list"
  and tokensDouble :: "string \<Rightarrow> string \<Rightarrow> string list" where
  "tokensOuter [] = []"
| "tokensOuter (ch # rest) =
     (if ch = SQ then tokensSingle ch rest
      else if ch = DQ then tokensDouble [] rest
      else tokensOuter rest)"
| "tokensSingle prev [] = []"
| "tokensSingle prev (c # rest) =
     (if c = SQ \<and> prev \<noteq> BSL then tokensOuter rest else tokensSingle c rest)"
| "tokensDouble token [] = [token]"
| "tokensDouble token (c # rest) =
     (if c \<noteq> DQ then tokensDouble (token @ [c]) rest else token # tokensOuter rest)"

definition doubleQuotedTokens :: "string \<Rightarrow> string list" where
  "doubleQuotedTokens sql = tokensOuter sql"

text \<open>Two texts equal up to the case of their letters.\<close>

definition sameIgnoringCase :: "string \<Rightarrow> string \<Rightarrow> bool" where
  "sameIgnoringCase s t = (toLowerCase s = toLowerCase t)"

text \<open>
  An occurrence of a pattern \<^verbatim>\<open>lit\s*['"]([^'"]+)['"]\<close> in words: the literal in any letter
  case, white space, a quote character, a name that is not empty and holds no quote
  character, a quote character. \<open>occurrences lit s ns\<close>: read from the left, taking every
  occurrence where one starts and going on behind it, the text \<open>s\<close> holds occurrences with
  the names \<open>ns\<close>, in this order.
\<close>

definition occurrence :: "string \<Rightarrow> string \<Rightarrow> string \<Rightarrow> bool" where
  "occurrence lit m nm =
     (\<exists>p ws q q'. m = p @ ws @ [q] @ nm @ [q']
        \<and> length p = length lit \<and> map canon p = map canon lit
        \<and> list_all isWhiteSpace ws \<and> isQuote q \<and> isQuote q'
        \<and> nm \<noteq> [] \<and> list_all (\<lambda>c. \<not> isQuote c) nm)"

inductive occurrences :: "string \<Rightarrow> string \<Rightarrow> string list \<Rightarrow> bool" for lit where
  occ_end: "occurrences lit [] []"
| occ_here: "occurrence lit m nm \<Longrightarrow> occurrences lit rest ns
     \<Longrightarrow> occurrences lit (m @ rest) (nm # ns)"
| occ_skip: "\<not> (\<exists>m nm rest. c # cs = m @ rest \<and> occurrence lit m nm)
     \<Longrightarrow> occurrences lit cs ns \<Longrightarrow> occurrences lit (c # cs) ns"

text \<open>The name a matched text gives when it is matched once more.\<close>

definition capture :: "string \<Rightarrow> string \<Rightarrow> string" where
  "capture lit s = (case firstQuoted lit s of Some (_, nm, _) \<Rightarrow> nm | None \<Rightarrow> [])"

text \<open>A list without its repetitions, every value where it first stood.\<close>

fun firstSeen :: "'a list \<Rightarrow> 'a list" where
  "firstSeen [] = []"
| "firstSeen (x # xs) = x # removeAll x (firstSeen xs)"

text \<open>A name without the quote characters around it.\<close>

definition stripSurroundingQuotes :: "string \<Rightarrow> string" where
  "stripSurroundingQuotes s = rev (dropWhile isQuote (rev (dropWhile isQuote s)))"

text \<open>The capital letters below code 256.\<close>

definition isUpperLetter :: "char \<Rightarrow> bool" where
  "isUpperLetter c = (isAsciiUpper c \<or> (192 \<le> code c \<and> code c \<le> 222 \<and> code c \<noteq> 215))"

text \<open>A trimmed text holds more than one \<open>;\<close>, or exactly one that is not its last
  character.\<close>

definition severalStatements :: "string \<Rightarrow> bool" where
  "severalStatements t =
     (count_list t (CHR '';'') > 1 \<or> (count_list t (CHR '';'') = 1 \<and> last t \<noteq> CHR '';''))"

text \<open>The test of the multi-statement guard, the pieces of \<^verbatim>\<open>split\<close> counted as
  occurrences of the separator.\<close>

definition multiStatement :: "string \<Rightarrow> bool" where
  "multiStatement sql =
     (count_list (trim sql) (CHR '';'') > 1
      \<or> (count_list (trim sql) (CHR '';'') = 1 \<and> \<not> endsWith (trim sql) (CHR '';'')))"

text \<open>The issues of \<^verbatim>\<open>semanticCheck\<close> by the check that pushes them: the policy's, and
  those behind the entity check (join edges, dimensions, metrics, time range).\<close>

definition joinIssues :: "registry \<Rightarrow> join_edge \<Rightarrow> string list" where
  "joinIssues registry j =
     (if \<not> has registry (edge_from j) then [joinFromMissing (edge_from j)] else [])
     @ (if \<not> has registry (edge_to j) then [joinToMissing (edge_to j)] else [])"

definition laterIssues :: "plan \<Rightarrow> registry \<Rightarrow> string list" where
  "laterIssues plan registry =
     concat (map (joinIssues registry) (joinGraph plan))
     @ map dimensionNotFound
         (filter (\<lambda>d. \<not> existsInAnyEntity registry d True True)
            (orEmpty (intent_dimensions (intent plan))))
     @ map metricNotFound
         (filter (\<lambda>m. \<not> metricOrMeasureExists registry m)
            (orEmpty (intent_metrics (intent plan))))
     @ (if intent_timeRange (intent plan)
           \<and> \<not> list_ex (\<lambda>kv. time_dimensions (snd kv) \<noteq> []) registry
        then [''Time range provided but no time dimensions available.''] else [])"

text \<open>The \<^verbatim>\<open>try\<close> statement: the issues behind it, or the error its handler raises.\<close>

definition policyIssues :: "policy \<Rightarrow> registry \<Rightarrow> js_error + string list" where
  "policyIssues pol registry =
     (case pol registry of
        Inl e \<Rightarrow> (case thrownText e of Inl err \<Rightarrow> Inl err | Inr m \<Rightarrow> Inr [m])
      | Inr _ \<Rightarrow> Inr [])"

section \<open>A small registry for the examples\<close>

definition customersEntity :: entity where
  "customersEntity =
     \<lparr>name = ''customers'', table = ''customers'',
      dimensions = [\<lparr>name = ''country'', aliases = Some [''region'']\<rparr>,
                    \<lparr>name = ''Order Date'', aliases = None\<rparr>],
      time_dimensions = [\<lparr>name = ''created_at''\<rparr>],
      measure_list = [\<lparr>name = ''revenue''\<rparr>],
      dimIndex = {''country'', ''Order Date''},
      metricIndex = {},
      measureIndex = {''revenue''},
      reverseAliasIndex = [''region'' \<mapsto> ''country'']\<rparr>"

definition productsEntity :: entity where
  "productsEntity =
     \<lparr>name = ''products'', table = ''products'',
      dimensions = [\<lparr>name = ''category'', aliases = None\<rparr>,
                    \<lparr>name = ''Segment'', aliases = None\<rparr>],
      time_dimensions = [],
      measure_list = [\<lparr>name = ''price''\<rparr>],
      dimIndex = {''category'', ''Segment''},
      metricIndex = {},
      measureIndex = {''price''},
      reverseAliasIndex = Map.empty\<rparr>"

definition demoRegistry :: registry where
  "demoRegistry = [(''customers'', customersEntity), (''products'', productsEntity)]"

definition noPolicy :: policy where
  "noPolicy registry = Inr ()"

definition ordersPlan :: plan where
  "ordersPlan = \<lparr>selectedEntities = [''orders''], joinGraph = [],
     intent = \<lparr>intent_dimensions = None, intent_metrics = Some [], intent_timeRange = False\<rparr>\<rparr>"

definition regionPlan :: plan where
  "regionPlan = \<lparr>selectedEntities = [''customers''],
     joinGraph = [\<lparr>edge_from = ''customers'', edge_to = ''products''\<rparr>],
     intent = \<lparr>intent_dimensions = Some [''region''], intent_metrics = Some [''revenue''],
               intent_timeRange = True\<rparr>\<rparr>"

definition denied :: thrown where
  "denied = Thrown (Some ''Table not allowed: secrets'') ''Error: Table not allowed: secrets''"

definition denyPolicy :: policy where
  "denyPolicy registry = Inl denied"

definition nullPolicy :: policy where
  "nullPolicy registry = Inl ThrownNullish"

definition twoColumnsMessage :: string where
  "twoColumnsMessage = ''SQL compilation error: invalid identifier '' @ [SQ] @ ''FOO'' @ [SQ]
     @ '', Invalid Identifier'' @ [DQ] @ ''BAR'' @ [DQ] @ '', invalid identifier  '' @ [SQ]
     @ ''FOO'' @ [SQ]"

definition quotedColumnMessage :: string where
  "quotedColumnMessage = ''column '' @ [DQ] @ ''name'' @ [DQ] @ '' not found''"

definition obrienMessage :: string where
  "obrienMessage = ''column o'' @ [SQ] @ ''brien not found''"

definition technologyMessage :: string where
  "technologyMessage = ''SQLITE_ERROR: no such column: '' @ [DQ] @ ''Technology'' @ [DQ]"

definition quarterMessage :: string where
  "quarterMessage = ''no such column: '' @ [SQ] @ ''2nd_quarter'' @ [SQ]"

section \<open>Evaluation rules\<close>

lemmas char_defs = code_def isWhiteSpace_def isLineTerminator_def isAsciiUpper_def
  isAsciiLower_def isDigit_def isWordChar_def lowerChar_def fixedByToUpperCase_def canon_def
  isQuote_def isUpperLetter_def char_of_def bit_Suc_0_iff

section \<open>Properties of the statement safety scanner\<close>

lemma length_split: "length (split sep s) = Suc (count_list s sep)"
  by (induction s) auto

lemma count_list_dropWhile: "\<not> P x \<Longrightarrow> count_list (dropWhile P xs) x = count_list xs x"
  by (induction xs) auto

lemma flag_fold_issues:
  "issues (foldl (\<lambda>res rx. if P rx then flag res (f rx) else res) res xs)
     = issues res @ map f (filter P xs)"
  by (induction xs arbitrary: res) (auto simp: flag_def)

lemma flag_fold_ok:
  "ok (foldl (\<lambda>res rx. if P rx then flag res (f rx) else res) res xs)
     = (ok res \<and> filter P xs = [])"
  by (induction xs arbitrary: res) (auto simp: flag_def)

lemma syntaxScan_issues:
  "issues (syntaxScan sql) =
     (if multiStatement sql then [''Multiple statements detected.''] else [])
     @ map (\<lambda>rx. ''Disallowed token: '' @ rx_source rx) (filter (\<lambda>rx. rx_test rx sql) DISALLOWED)
     @ (if countPair (CHR ''/'') (CHR ''*'') sql \<noteq> countPair (CHR ''*'') (CHR ''/'') sql
        then [''Unclosed or unmatched block comment.''] else [])"
  by (simp add: syntaxScan_def Let_def flag_fold_issues length_split multiStatement_def flag_def)

lemma syntaxScan_ok: "ok (syntaxScan sql) = (issues (syntaxScan sql) = [])"
  by (simp add: syntaxScan_def Let_def flag_fold_issues flag_fold_ok length_split flag_def)

text \<open>The result in one piece, for evaluation: every test stands once.\<close>

lemma syntaxScan_eval:
  "syntaxScan sql =
     \<lparr>ok = (\<not> multiStatement sql
             \<and> filter (\<lambda>rx. rx_test rx sql) DISALLOWED = []
             \<and> countPair (CHR ''/'') (CHR ''*'') sql = countPair (CHR ''*'') (CHR ''/'') sql),
      issues =
        (if multiStatement sql then [''Multiple statements detected.''] else [])
        @ map (\<lambda>rx. ''Disallowed token: '' @ rx_source rx)
            (filter (\<lambda>rx. rx_test rx sql) DISALLOWED)
        @ (if countPair (CHR ''/'') (CHR ''*'') sql \<noteq> countPair (CHR ''*'') (CHR ''/'') sql
           then [''Unclosed or unmatched block comment.''] else [])\<rparr>"
proof -
  have "syntaxScan sql = \<lparr>ok = ok (syntaxScan sql), issues = issues (syntaxScan sql)\<rparr>"
    by simp
  then show ?thesis
    unfolding syntaxScan_ok syntaxScan_issues by simp
qed

lemmas scan_eval = syntaxScan_eval multiStatement_def trim_def endsWith_def DISALLOWED_def
  rx_source_def rx_test_def wordHere_def

lemma multiStatement_several: "multiStatement sql = severalStatements (trim sql)"
  by (auto simp: multiStatement_def severalStatements_def endsWith_def)

lemma multi_issue_iff:
  "''Multiple statements detected.'' \<in> set (issues (syntaxScan sql)) \<longleftrightarrow> multiStatement sql"
  by (auto simp: syntaxScan_issues)

lemma multi_issue_not_ok:
  "''Multiple statements detected.'' \<in> set (issues (syntaxScan sql)) \<Longrightarrow> \<not> ok (syntaxScan sql)"
  unfolding syntaxScan_ok by (metis empty_iff empty_set)

lemma multi_issue_several:
  "(''Multiple statements detected.'' \<in> set (issues (syntaxScan sql)) \<and> \<not> ok (syntaxScan sql))
      \<longleftrightarrow> severalStatements (trim sql)"
  using multi_issue_not_ok [of sql]
  unfolding multi_issue_iff multiStatement_several by metis

text \<open>
  C1. The scanner reports \<open>Multiple statements detected.\<close>, with \<open>ok\<close> false, exactly when
  the trimmed text holds more than one \<open>;\<close>, or exactly one that is not its last character.
  \<open>SELECT 1; SELECT 2\<close> is rejected with that one issue, and \<open>SELECT 1;\<close> passes.
\<close>

theorem syntaxScan_multiple_statements:
  "((''Multiple statements detected.'' \<in> set (issues (syntaxScan sql)) \<and> \<not> ok (syntaxScan sql))
      \<longleftrightarrow> severalStatements (trim sql))
   \<and> syntaxScan ''SELECT 1; SELECT 2''
       = \<lparr>ok = False, issues = [''Multiple statements detected.'']\<rparr>
   \<and> syntaxScan ''SELECT 1;'' = \<lparr>ok = True, issues = []\<rparr>"
proof (intro conjI)
  show "(''Multiple statements detected.'' \<in> set (issues (syntaxScan sql)) \<and> \<not> ok (syntaxScan sql))
      \<longleftrightarrow> severalStatements (trim sql)"
    by (rule multi_issue_several)
  show "syntaxScan ''SELECT 1; SELECT 2''
      = \<lparr>ok = False, issues = [''Multiple statements detected.'']\<rparr>"
    by (simp add: scan_eval char_defs)
  show "syntaxScan ''SELECT 1;'' = \<lparr>ok = True, issues = []\<rparr>"
    by (simp add: scan_eval char_defs)
qed

theorem syntaxScan_multiple_statements_witness:
  "severalStatements (trim '' SELECT 1; SELECT 2 '')
   \<and> ''Multiple statements detected.'' \<in> set (issues (syntaxScan '' SELECT 1; SELECT 2 ''))
   \<and> \<not> ok (syntaxScan '' SELECT 1; SELECT 2 '')"
proof -
  have h: "severalStatements (trim '' SELECT 1; SELECT 2 '')"
    by (simp add: severalStatements_def trim_def char_defs)
  show ?thesis
    by (rule conjI [OF h syntaxScan_multiple_statements [THEN conjunct1, THEN iffD2, OF h]])
qed

text \<open>What \<^verbatim>\<open>trim\<close> leaves of a text around a character that is no white space and has
  some other such character behind it.\<close>

lemma trim_shape:
  assumes "\<not> isWhiteSpace x" "\<not> list_all isWhiteSpace b"
  shows "\<exists>a' b'. trim (a @ x # b) = a' @ x # b' \<and> b' \<noteq> []"
proof -
  let ?P = isWhiteSpace
  have 1: "dropWhile ?P (a @ x # b) = dropWhile ?P a @ x # b"
    using assms(1) by (simp add: dropWhile_append)
  from assms(2) have ex: "\<exists>c \<in> set (rev b). \<not> ?P c"
    by (auto simp: list_all_iff)
  then have 2: "dropWhile ?P (rev b @ x # rev (dropWhile ?P a))
      = dropWhile ?P (rev b) @ x # rev (dropWhile ?P a)"
    by (auto simp: dropWhile_append)
  from ex have ne: "dropWhile ?P (rev b) \<noteq> []"
    by (auto simp: dropWhile_eq_Nil_conv)
  have "trim (a @ x # b) = dropWhile ?P a @ x # rev (dropWhile ?P (rev b))"
    by (simp add: trim_def 1 2)
  moreover have "rev (dropWhile ?P (rev b)) \<noteq> []" using ne by simp
  ultimately show ?thesis by blast
qed

lemma semicolon_inside:
  assumes "\<not> list_all isWhiteSpace b"
  shows "multiStatement (a @ CHR '';'' # b)"
proof -
  have nws: "\<not> isWhiteSpace (CHR '';'')" by (simp add: char_defs)
  from trim_shape [OF nws assms, of a] obtain a' b' where
    t: "trim (a @ CHR '';'' # b) = a' @ CHR '';'' # b'" and ne: "b' \<noteq> []"
    by blast
  show ?thesis
  proof (cases "last b' = CHR '';''")
    case True
    then have "CHR '';'' \<in> set b'" using ne last_in_set by metis
    then have "count_list b' (CHR '';'') > 0" by (metis count_list_0_iff gr0I)
    then show ?thesis by (simp add: multiStatement_def t)
  next
    case False
    then show ?thesis using ne by (auto simp: multiStatement_def t endsWith_def)
  qed
qed

lemma semicolon_inside_flagged:
  assumes "\<not> list_all isWhiteSpace b"
  shows "\<not> ok (syntaxScan (a @ CHR '';'' # b))
      \<and> ''Multiple statements detected.'' \<in> set (issues (syntaxScan (a @ CHR '';'' # b)))"
proof -
  have "multiStatement (a @ CHR '';'' # b)"
    by (rule semicolon_inside [OF assms])
  then have i: "''Multiple statements detected.'' \<in> set (issues (syntaxScan (a @ CHR '';'' # b)))"
    by (simp only: multi_issue_iff)
  show ?thesis
    by (rule conjI [OF multi_issue_not_ok [OF i] i])
qed

text \<open>
  C10. The scanner counts every \<open>;\<close> of the trimmed text, wherever it stands: a text with a
  \<open>;\<close> that has anything but white space behind it is rejected as several statements, so a
  \<open>;\<close> inside a string literal (the closing quote stands behind it) or inside a comment
  does it too. \<open>SELECT 'a;b' FROM t\<close> is rejected with that issue.
\<close>

theorem syntaxScan_semicolon_in_literal:
  "(\<not> list_all isWhiteSpace b \<longrightarrow>
      \<not> ok (syntaxScan (a @ CHR '';'' # b))
      \<and> ''Multiple statements detected.'' \<in> set (issues (syntaxScan (a @ CHR '';'' # b))))
   \<and> syntaxScan (''SELECT '' @ [SQ] @ ''a;b'' @ [SQ] @ '' FROM t'')
       = \<lparr>ok = False, issues = [''Multiple statements detected.'']\<rparr>"
proof (intro conjI impI)
  assume "\<not> list_all isWhiteSpace b"
  from semicolon_inside_flagged [OF this]
  show "\<not> ok (syntaxScan (a @ CHR '';'' # b))" 
    and "''Multiple statements detected.'' \<in> set (issues (syntaxScan (a @ CHR '';'' # b)))"
    by (rule conjunct1, rule conjunct2)
next
  show "syntaxScan (''SELECT '' @ [SQ] @ ''a;b'' @ [SQ] @ '' FROM t'')
       = \<lparr>ok = False, issues = [''Multiple statements detected.'']\<rparr>"
    by (simp add: scan_eval char_defs)
qed

theorem syntaxScan_semicolon_in_literal_witness:
  "\<not> list_all isWhiteSpace (''b'' @ [SQ] @ '' -- x'')
   \<and> \<not> ok (syntaxScan ((''SELECT '' @ [SQ] @ ''a'') @ CHR '';'' # (''b'' @ [SQ] @ '' -- x'')))
   \<and> ''Multiple statements detected.''
       \<in> set (issues (syntaxScan ((''SELECT '' @ [SQ] @ ''a'') @ CHR '';'' # (''b'' @ [SQ] @ '' -- x''))))"
proof -
  have h: "\<not> list_all isWhiteSpace (''b'' @ [SQ] @ '' -- x'')"
    by (simp add: char_defs)
  show ?thesis
    by (rule conjI [OF h syntaxScan_semicolon_in_literal [THEN conjunct1, THEN mp, OF h]])
qed

section \<open>Properties of the quote normalizer\<close>

lemmas norm_eval = normalizeSQLiteQuotes_def emitToken_def isIdentifier_def toLowerCase_def
  sqlKeywords_def identPattern_def escapeToken_def quoteState_def doubleQuotedTokens_def

lemma known_demo:
  "knownIdentifiers demoRegistry =
     {''customers'', ''country'', ''region'', ''Order Date'', ''created_at'', ''revenue'',
      ''products'', ''category'', ''Segment'', ''price''}"
  by (auto simp: knownIdentifiers_def identifiersOf_def demoRegistry_def customersEntity_def
      productsEntity_def)

text \<open>A prefix after which the scan stands outside every quoted span is scanned on its
  own: the scan of the whole text is the scan of the prefix, then the scan of the rest.\<close>

lemma scan_append:
  "foldl quoteStep Outside pre = Outside \<Longrightarrow>
     scanOuter K (pre @ rest) = scanOuter K pre @ scanOuter K rest"
  "foldl quoteStep (InSingle prev) pre = Outside \<Longrightarrow>
     scanSingle K prev (pre @ rest) = scanSingle K prev pre @ scanOuter K rest"
  "foldl quoteStep InDouble pre = Outside \<Longrightarrow>
     scanDouble K tok (pre @ rest) = scanDouble K tok pre @ scanOuter K rest"
  by (induct K pre and K prev pre and K tok pre rule: scanOuter_scanSingle_scanDouble.induct)
     auto

lemma scanDouble_token:
  "DQ \<notin> set tok \<Longrightarrow>
     scanDouble K acc (tok @ DQ # post) = emitToken K (acc @ tok) @ scanOuter K post"
  by (induction tok arbitrary: acc) auto

lemma normalize_token:
  assumes "quoteState pre = Outside" "DQ \<notin> set token"
  shows "normalizeSQLiteQuotes (pre @ [DQ] @ token @ [DQ] @ post) r
    = normalizeSQLiteQuotes pre r @ emitToken (knownIdentifiers r) token
      @ normalizeSQLiteQuotes post r"
  using assms scan_append(1) [of pre "knownIdentifiers r" "DQ # token @ DQ # post"]
    scanDouble_token [of token "knownIdentifiers r" "[]" post]
  by (simp add: normalizeSQLiteQuotes_def quoteState_def)

text \<open>Lower-casing turns no character into a letter, a digit or an underscore that was
  none before, and no such character into another kind: whether a text matches the
  identifier pattern does not depend on the case of its letters.\<close>

lemma lowerChar_cases:
  obtains (upper) "isAsciiUpper c" "code (lowerChar c) = code c + 32"
  | (latin) "192 \<le> code c" "code c \<le> 222" "code (lowerChar c) = code c + 32"
  | (same) "\<not> isAsciiUpper c" "lowerChar c = c"
proof (cases "isAsciiUpper c")
  case True
  then have "code (lowerChar c) = (code c + 32) mod 256"
    by (simp add: lowerChar_def code_def)
  with True show ?thesis using upper by (simp add: isAsciiUpper_def)
next
  case False
  show ?thesis
  proof (cases "192 \<le> code c \<and> code c \<le> 222 \<and> code c \<noteq> 215")
    case True
    then have "code (lowerChar c) = (code c + 32) mod 256"
      by (simp add: lowerChar_def code_def)
    with True show ?thesis using latin by simp
  next
    case F: False
    with False have "lowerChar c = c" by (auto simp: lowerChar_def)
    with False show ?thesis using same by simp
  qed
qed

lemma lowerChar_word: "isWordChar (lowerChar c) = isWordChar c"
  by (cases c rule: lowerChar_cases)
     (auto simp: isWordChar_def isAsciiUpper_def isAsciiLower_def isDigit_def code_def)

lemma lowerChar_start:
  "(isAsciiUpper (lowerChar c) \<or> isAsciiLower (lowerChar c) \<or> lowerChar c = CHR ''_'')
     = (isAsciiUpper c \<or> isAsciiLower c \<or> c = CHR ''_'')"
  by (cases c rule: lowerChar_cases)
     (auto simp: isAsciiUpper_def isAsciiLower_def code_def)

lemma identPattern_lower: "identPattern (toLowerCase s) = identPattern s"
  by (cases s) (auto simp: identPattern_def toLowerCase_def lowerChar_start lowerChar_word
      list_all_iff)

lemma identPattern_any_case: "sameIgnoringCase s t \<Longrightarrow> identPattern s = identPattern t"
  using identPattern_lower [of s] identPattern_lower [of t] by (simp add: sameIgnoringCase_def)

text \<open>
  C3, as the code has it. A double-quoted token (one that opens where the scan stands
  outside every quoted span) that equals a known identifier of the registry in any letter
  case stays double-quoted in the output, between the normalized texts before and behind it,
  whenever the token is a known identifier as it is written, or its lower-case form is one,
  or the identifier (and so the token) matches the identifier pattern.
\<close>

theorem normalize_keeps_known_identifier:
  assumes "quoteState pre = Outside" and "DQ \<notin> set token"
    and "nm \<in> knownIdentifiers r" and "sameIgnoringCase token nm"
    and "token \<in> knownIdentifiers r \<or> toLowerCase token \<in> knownIdentifiers r
           \<or> identPattern nm"
  shows "normalizeSQLiteQuotes (pre @ [DQ] @ token @ [DQ] @ post) r
    = normalizeSQLiteQuotes pre r @ [DQ] @ token @ [DQ] @ normalizeSQLiteQuotes post r"
proof -
  from assms(5) identPattern_any_case [OF assms(4)]
  have "isIdentifier (knownIdentifiers r) token"
    by (auto simp: isIdentifier_def)
  then show ?thesis
    using normalize_token [OF assms(1,2), of post r] by (simp add: emitToken_def)
qed

theorem normalize_keeps_known_identifier_witness:
  "quoteState ''SELECT '' = Outside \<and> DQ \<notin> set ''SEGMENT''
   \<and> ''Segment'' \<in> knownIdentifiers demoRegistry
   \<and> sameIgnoringCase ''SEGMENT'' ''Segment''
   \<and> ''SEGMENT'' \<notin> knownIdentifiers demoRegistry
   \<and> toLowerCase ''SEGMENT'' \<notin> knownIdentifiers demoRegistry
   \<and> identPattern ''Segment''
   \<and> normalizeSQLiteQuotes (''SELECT '' @ [DQ] @ ''SEGMENT'' @ [DQ] @ '' FROM products'')
         demoRegistry
       = normalizeSQLiteQuotes ''SELECT '' demoRegistry @ [DQ] @ ''SEGMENT'' @ [DQ]
           @ normalizeSQLiteQuotes '' FROM products'' demoRegistry"
proof -
  have a: "quoteState ''SELECT '' = Outside" by (simp add: norm_eval)
  have b: "DQ \<notin> set ''SEGMENT''" by simp
  have c: "''Segment'' \<in> knownIdentifiers demoRegistry" by (simp add: known_demo)
  have d: "sameIgnoringCase ''SEGMENT'' ''Segment''"
    by (simp add: sameIgnoringCase_def toLowerCase_def char_defs)
  have e: "''SEGMENT'' \<notin> knownIdentifiers demoRegistry" by (simp add: known_demo)
  have f: "toLowerCase ''SEGMENT'' \<notin> knownIdentifiers demoRegistry"
    by (simp add: known_demo toLowerCase_def char_defs)
  have g: "identPattern ''Segment''" by (simp add: identPattern_def char_defs)
  have h: "''SEGMENT'' \<in> knownIdentifiers demoRegistry
      \<or> toLowerCase ''SEGMENT'' \<in> knownIdentifiers demoRegistry \<or> identPattern ''Segment''"
    using g by simp
  show ?thesis
    by (intro conjI a b c d e f g normalize_keeps_known_identifier [OF a b c d h])
qed

text \<open>
  C3 as stated fails: \<open>Order Date\<close> is a dimension name of the registry, the token
  \<open>order date\<close> equals it up to letter case, and the normalizer turns the token into a
  single-quoted literal. Lower-casing the token does not reach a name written with capitals.
\<close>

theorem normalize_any_case_counterexample:
  "''Order Date'' \<in> knownIdentifiers demoRegistry
   \<and> sameIgnoringCase ''order date'' ''Order Date''
   \<and> quoteState ''SELECT '' = Outside \<and> DQ \<notin> set ''order date''
   \<and> normalizeSQLiteQuotes (''SELECT '' @ [DQ] @ ''order date'' @ [DQ] @ '' FROM customers'')
         demoRegistry
       = ''SELECT '' @ [SQ] @ ''order date'' @ [SQ] @ '' FROM customers''
   \<and> normalizeSQLiteQuotes (''SELECT '' @ [DQ] @ ''order date'' @ [DQ] @ '' FROM customers'')
         demoRegistry
       \<noteq> normalizeSQLiteQuotes ''SELECT '' demoRegistry @ [DQ] @ ''order date'' @ [DQ]
           @ normalizeSQLiteQuotes '' FROM customers'' demoRegistry"
  by (simp add: norm_eval known_demo sameIgnoringCase_def char_defs)

text \<open>A token whose lower-case form is a keyword is made of ASCII letters, so it matches
  the identifier pattern: the keyword test adds nothing to the pattern test.\<close>

lemma lowerChar_ascii_lower:
  assumes "isAsciiLower (lowerChar c)"
  shows "isAsciiUpper c \<or> isAsciiLower c"
proof (rule ccontr)
  assume n: "\<not> (isAsciiUpper c \<or> isAsciiLower c)"
  show False
  proof (cases "192 \<le> code c \<and> code c \<le> 222 \<and> code c \<noteq> 215")
    case True
    then have "lowerChar c = char_of (code c + 32)" by (simp add: lowerChar_def)
    then have "code (lowerChar c) = (code c + 32) mod 256" by (simp add: code_def)
    with True assms show False by (simp add: isAsciiLower_def)
  next
    case False
    with n have "lowerChar c = c" by (auto simp: lowerChar_def)
    with assms n show False by simp
  qed
qed

lemma keywords_lower: "\<forall>k \<in> sqlKeywords. k \<noteq> [] \<and> list_all isAsciiLower k"
  by (simp add: sqlKeywords_def isAsciiLower_def code_def)

lemma keyword_matches_pattern:
  assumes "toLowerCase token \<in> sqlKeywords"
  shows "identPattern token"
proof -
  from assms keywords_lower have ne: "toLowerCase token \<noteq> []"
    and al: "list_all isAsciiLower (toLowerCase token)" by blast+
  from al have letters: "\<forall>c \<in> set token. isAsciiUpper c \<or> isAsciiLower c"
    by (auto simp: toLowerCase_def list_all_iff dest: lowerChar_ascii_lower)
  from ne obtain c cs where t: "token = c # cs"
    by (cases token) (auto simp: toLowerCase_def)
  with letters show ?thesis
    by (auto simp: identPattern_def isWordChar_def list_all_iff)
qed

text \<open>
  C4. A double-quoted token that is not a known identifier, neither as written nor in lower
  case, and does not match the identifier pattern (so it is no keyword either, in any
  case) comes out single-quoted, every single quote inside it doubled, between the
  normalized texts before and behind it.
\<close>

theorem normalize_literal_token:
  assumes "quoteState pre = Outside" and "DQ \<notin> set token"
    and "token \<notin> knownIdentifiers r" and "toLowerCase token \<notin> knownIdentifiers r"
    and "\<not> identPattern token"
  shows "normalizeSQLiteQuotes (pre @ [DQ] @ token @ [DQ] @ post) r
    = normalizeSQLiteQuotes pre r @ [SQ] @ escapeToken token @ [SQ]
      @ normalizeSQLiteQuotes post r"
proof -
  from assms(5) have "toLowerCase token \<notin> sqlKeywords"
    using keyword_matches_pattern by blast
  with assms(3-5) have "\<not> isIdentifier (knownIdentifiers r) token"
    by (simp add: isIdentifier_def)
  then show ?thesis
    using normalize_token [OF assms(1,2), of post r] by (simp add: emitToken_def)
qed

theorem normalize_literal_token_witness:
  "quoteState ''WHERE category = '' = Outside
   \<and> DQ \<notin> set (''O'' @ [SQ] @ ''Neil'')
   \<and> ''O'' @ [SQ] @ ''Neil'' \<notin> knownIdentifiers demoRegistry
   \<and> toLowerCase (''O'' @ [SQ] @ ''Neil'') \<notin> knownIdentifiers demoRegistry
   \<and> \<not> identPattern (''O'' @ [SQ] @ ''Neil'')
   \<and> escapeToken (''O'' @ [SQ] @ ''Neil'') = ''O'' @ [SQ, SQ] @ ''Neil''
   \<and> normalizeSQLiteQuotes
         (''WHERE category = '' @ [DQ] @ (''O'' @ [SQ] @ ''Neil'') @ [DQ] @ '' LIMIT 5'')
         demoRegistry
       = normalizeSQLiteQuotes ''WHERE category = '' demoRegistry
           @ [SQ] @ escapeToken (''O'' @ [SQ] @ ''Neil'') @ [SQ]
           @ normalizeSQLiteQuotes '' LIMIT 5'' demoRegistry"
proof -
  have a: "quoteState ''WHERE category = '' = Outside" by (simp add: norm_eval)
  have b: "DQ \<notin> set (''O'' @ [SQ] @ ''Neil'')" by simp
  have c: "''O'' @ [SQ] @ ''Neil'' \<notin> knownIdentifiers demoRegistry"
    by (simp add: known_demo)
  have d: "toLowerCase (''O'' @ [SQ] @ ''Neil'') \<notin> knownIdentifiers demoRegistry"
    by (simp add: known_demo toLowerCase_def char_defs)
  have e: "\<not> identPattern (''O'' @ [SQ] @ ''Neil'')"
    by (simp add: identPattern_def char_defs)
  have f: "escapeToken (''O'' @ [SQ] @ ''Neil'') = ''O'' @ [SQ, SQ] @ ''Neil''"
    by (simp add: escapeToken_def)
  show ?thesis
    by (rule conjI [OF a conjI [OF b conjI [OF c conjI [OF d conjI [OF e conjI [OF f
          normalize_literal_token [OF a b c d e]]]]]]])
qed

text \<open>The three conditions of C3 are the only ones: a token that equals a known identifier
  in any letter case and meets none of them comes out single-quoted.\<close>

lemma normalize_any_case_lost:
  assumes "quoteState pre = Outside" and "DQ \<notin> set token"
    and "nm \<in> knownIdentifiers r" and "sameIgnoringCase token nm"
    and "token \<notin> knownIdentifiers r" and "toLowerCase token \<notin> knownIdentifiers r"
    and "\<not> identPattern nm"
  shows "normalizeSQLiteQuotes (pre @ [DQ] @ token @ [DQ] @ post) r
    = normalizeSQLiteQuotes pre r @ [SQ] @ escapeToken token @ [SQ]
      @ normalizeSQLiteQuotes post r"
proof -
  from assms(7) identPattern_any_case [OF assms(4)] have p: "\<not> identPattern token"
    by simp
  then have "toLowerCase token \<notin> sqlKeywords"
    using keyword_matches_pattern by blast
  with assms(5,6) p have "\<not> isIdentifier (knownIdentifiers r) token"
    by (simp add: isIdentifier_def)
  then show ?thesis
    using normalize_token [OF assms(1,2), of post r] by (simp add: emitToken_def)
qed

text \<open>The two notions agree: a token that opens where the scan stands outside every
  quoted span is one of the double-quoted tokens of the text, between those before and
  those behind it.\<close>

lemma tokens_append:
  "foldl quoteStep Outside pre = Outside \<Longrightarrow>
     tokensOuter (pre @ rest) = tokensOuter pre @ tokensOuter rest"
  "foldl quoteStep (InSingle prev) pre = Outside \<Longrightarrow>
     tokensSingle prev (pre @ rest) = tokensSingle prev pre @ tokensOuter rest"
  "foldl quoteStep InDouble pre = Outside \<Longrightarrow>
     tokensDouble tok (pre @ rest) = tokensDouble tok pre @ tokensOuter rest"
  by (induct pre and prev pre and tok pre rule: tokensOuter_tokensSingle_tokensDouble.induct)
     auto

lemma tokensDouble_token:
  "DQ \<notin> set tok \<Longrightarrow> tokensDouble acc (tok @ DQ # post) = (acc @ tok) # tokensOuter post"
  by (induction tok arbitrary: acc) auto

lemma token_listed:
  assumes "quoteState pre = Outside" and "DQ \<notin> set token"
  shows "doubleQuotedTokens (pre @ [DQ] @ token @ [DQ] @ post)
    = doubleQuotedTokens pre @ token # doubleQuotedTokens post"
  using assms tokens_append(1) [of pre "DQ # token @ DQ # post"]
    tokensDouble_token [of token "[]" post]
  by (simp add: doubleQuotedTokens_def quoteState_def)

text \<open>A second pass over a text whose double-quoted tokens all count as identifiers
  reads the same spans as the first and changes nothing more.\<close>

lemma idempotent_scan:
  "list_all (isIdentifier K) (tokensOuter s) \<Longrightarrow> scanOuter K (scanOuter K s) = scanOuter K s"
  "list_all (isIdentifier K) (tokensSingle prev s) \<Longrightarrow>
     scanSingle K prev (scanSingle K prev s) = scanSingle K prev s"
  "DQ \<notin> set tok \<Longrightarrow> list_all (isIdentifier K) (tokensDouble tok s) \<Longrightarrow>
     scanOuter K (scanDouble K tok s) = scanDouble K tok s"
proof (induct K s and K prev s and K tok s rule: scanOuter_scanSingle_scanDouble.induct)
  case (5 known token)
  then show ?case
    using scanDouble_token [of token known "[]" "[]"] by (simp add: emitToken_def)
next
  case (6 known token c rest)
  show ?case
  proof (cases "c = DQ")
    case True
    with 6 show ?thesis
      using scanDouble_token [of token known "[]" "scanOuter known rest"]
      by (simp add: emitToken_def)
  next
    case False
    with 6 show ?thesis by simp
  qed
qed auto

text \<open>
  C5. On a text whose double-quoted tokens are all classified as identifiers already (so
  that nothing is left to turn into a literal), normalizing twice gives what normalizing
  once gives.
\<close>

theorem normalize_idempotent:
  assumes "\<forall>t \<in> set (doubleQuotedTokens sql). isIdentifier (knownIdentifiers r) t"
  shows "normalizeSQLiteQuotes (normalizeSQLiteQuotes sql r) r = normalizeSQLiteQuotes sql r"
  using assms idempotent_scan(1) [of "knownIdentifiers r" sql]
  by (simp add: normalizeSQLiteQuotes_def doubleQuotedTokens_def list_all_iff)

theorem normalize_idempotent_witness:
  "list_all (isIdentifier (knownIdentifiers demoRegistry))
     (doubleQuotedTokens
        (''SELECT '' @ [DQ] @ ''country'' @ [DQ] @ '' WHERE n = '' @ [SQ] @ ''a '' @ [DQ]
          @ ''b c'' @ [DQ] @ [SQ] @ '' AND '' @ [DQ] @ ''region''))
   \<and> normalizeSQLiteQuotes (normalizeSQLiteQuotes
        (''SELECT '' @ [DQ] @ ''country'' @ [DQ] @ '' WHERE n = '' @ [SQ] @ ''a '' @ [DQ]
          @ ''b c'' @ [DQ] @ [SQ] @ '' AND '' @ [DQ] @ ''region'') demoRegistry) demoRegistry
     = normalizeSQLiteQuotes
        (''SELECT '' @ [DQ] @ ''country'' @ [DQ] @ '' WHERE n = '' @ [SQ] @ ''a '' @ [DQ]
          @ ''b c'' @ [DQ] @ [SQ] @ '' AND '' @ [DQ] @ ''region'') demoRegistry"
proof -
  have h: "list_all (isIdentifier (knownIdentifiers demoRegistry))
     (doubleQuotedTokens
        (''SELECT '' @ [DQ] @ ''country'' @ [DQ] @ '' WHERE n = '' @ [SQ] @ ''a '' @ [DQ]
          @ ''b c'' @ [DQ] @ [SQ] @ '' AND '' @ [DQ] @ ''region''))"
    by (simp add: norm_eval known_demo)
  show ?thesis
    by (rule conjI [OF h normalize_idempotent [OF h [unfolded list_all_iff]]])
qed

text \<open>Without that condition a second pass can change the text again: a literal that
  ends in a backslash keeps its closing quote from closing it.\<close>

lemma normalize_twice_differs:
  "normalizeSQLiteQuotes (normalizeSQLiteQuotes
      ([DQ] @ ''a'' @ [BSL, DQ] @ '' '' @ [SQ] @ ''x '' @ [DQ] @ ''c d'' @ [DQ] @ '' y'' @ [SQ])
      demoRegistry) demoRegistry
   \<noteq> normalizeSQLiteQuotes
      ([DQ] @ ''a'' @ [BSL, DQ] @ '' '' @ [SQ] @ ''x '' @ [DQ] @ ''c d'' @ [DQ] @ '' y'' @ [SQ])
      demoRegistry"
  by (simp add: norm_eval known_demo char_defs)

section \<open>Properties of the semantic validator\<close>

lemma pushEach_eq: "pushEach good msg iss xs = iss @ map msg (filter (\<lambda>x. \<not> good x) xs)"
  unfolding pushEach_def by (induction xs arbitrary: iss) auto

lemma pushJoin_fold:
  "foldl (pushJoin registry) iss js = iss @ concat (map (joinIssues registry) js)"
  by (induction js arbitrary: iss) (auto simp: pushJoin_def joinIssues_def Let_def)

text \<open>The result in one piece: the error of the handler, or the three groups of issues.\<close>

lemma semanticCheck_eval:
  "semanticCheck pol plan sql registry =
     (case policyIssues pol registry of
        Inl err \<Rightarrow> Inl err
      | Inr pis \<Rightarrow>
          Inr \<lparr>ok = (pis = []
                  \<and> filter (\<lambda>e. \<not> has registry e) (selectedEntities plan) = []
                  \<and> laterIssues plan registry = []),
               issues = pis
                  @ map notLoaded (filter (\<lambda>e. \<not> has registry e) (selectedEntities plan))
                  @ laterIssues plan registry,
               semanticOk = (pis = []
                  \<and> filter (\<lambda>e. \<not> has registry e) (selectedEntities plan) = []
                  \<and> laterIssues plan registry = [])\<rparr>)"
  by (simp add: semanticCheck_def policyIssues_def Let_def pushEach_eq pushJoin_fold
      laterIssues_def split: sum.splits)

lemma later_not_loaded: "notLoaded e \<notin> set (laterIssues plan registry)"
proof -
  have "hd s \<noteq> CHR ''S''" if "s \<in> set (laterIssues plan registry)" for s
    using that
    by (auto simp: laterIssues_def joinIssues_def joinFromMissing_def joinToMissing_def
        dimensionNotFound_def metricNotFound_def split: if_splits)
  moreover have "hd (notLoaded e) = CHR ''S''"
    by (simp add: notLoaded_def)
  ultimately show ?thesis by blast
qed

text \<open>
  C2. Whenever the check returns (it does unless the handler of the policy call raises),
  the entity check has pushed one \<open>not loaded\<close> issue for every entry of \<open>selectedEntities\<close>
  that is no key of the registry, in order, right behind the policy's issue if there is one,
  and no issue pushed later is a \<open>not loaded\<close> one. A plan that names only \<open>orders\<close>, against
  a registry with the keys \<open>customers\<close> and \<open>products\<close>, with a silent policy and no join
  edges, dimensions, metrics or time range, gets exactly that one issue and \<open>ok\<close> false.
\<close>

theorem semanticCheck_not_loaded:
  "(case policyIssues pol registry of
      Inl err \<Rightarrow> semanticCheck pol plan sql registry = Inl err
    | Inr pis \<Rightarrow>
        (\<exists>res rest. semanticCheck pol plan sql registry = Inr res
           \<and> issues res
               = pis @ map notLoaded (filter (\<lambda>e. \<not> has registry e) (selectedEntities plan))
                 @ rest
           \<and> (\<forall>e. notLoaded e \<notin> set rest)))
   \<and> (pol registry = Inr () \<and> map fst registry = [''customers'', ''products'']
        \<and> selectedEntities plan = [''orders''] \<and> joinGraph plan = []
        \<and> orEmpty (intent_dimensions (intent plan)) = []
        \<and> orEmpty (intent_metrics (intent plan)) = []
        \<and> \<not> intent_timeRange (intent plan)
      \<longrightarrow> semanticCheck pol plan sql registry
          = Inr \<lparr>ok = False,
             issues = [''Selected entity '' @ [DQ] @ ''orders'' @ [DQ] @ '' not loaded.''],
             semanticOk = False\<rparr>)"
proof (intro conjI impI)
  show "case policyIssues pol registry of
      Inl err \<Rightarrow> semanticCheck pol plan sql registry = Inl err
    | Inr pis \<Rightarrow>
        (\<exists>res rest. semanticCheck pol plan sql registry = Inr res
           \<and> issues res
               = pis @ map notLoaded (filter (\<lambda>e. \<not> has registry e) (selectedEntities plan))
                 @ rest
           \<and> (\<forall>e. notLoaded e \<notin> set rest))"
  proof (cases "policyIssues pol registry")
    case (Inl err)
    then show ?thesis by (simp add: semanticCheck_eval)
  next
    case (Inr pis)
    have "\<forall>e. notLoaded e \<notin> set (laterIssues plan registry)"
      using later_not_loaded by blast
    with Inr show ?thesis by (simp add: semanticCheck_eval)
  qed
next
  assume a: "pol registry = Inr () \<and> map fst registry = [''customers'', ''products'']
        \<and> selectedEntities plan = [''orders''] \<and> joinGraph plan = []
        \<and> orEmpty (intent_dimensions (intent plan)) = []
        \<and> orEmpty (intent_metrics (intent plan)) = []
        \<and> \<not> intent_timeRange (intent plan)"
  then have "set (map fst registry) = {''customers'', ''products''}" by simp
  then have "''orders'' \<notin> fst ` set registry" by simp
  then have "\<not> has registry ''orders''"
    by (simp add: has_def map_of_eq_None_iff)
  with a show "semanticCheck pol plan sql registry
          = Inr \<lparr>ok = False,
             issues = [''Selected entity '' @ [DQ] @ ''orders'' @ [DQ] @ '' not loaded.''],
             semanticOk = False\<rparr>"
    by (simp add: semanticCheck_eval policyIssues_def laterIssues_def notLoaded_def)
qed

theorem semanticCheck_not_loaded_witness:
  "(noPolicy demoRegistry = Inr () \<and> map fst demoRegistry = [''customers'', ''products'']
        \<and> selectedEntities ordersPlan = [''orders''] \<and> joinGraph ordersPlan = []
        \<and> orEmpty (intent_dimensions (intent ordersPlan)) = []
        \<and> orEmpty (intent_metrics (intent ordersPlan)) = []
        \<and> \<not> intent_timeRange (intent ordersPlan))
   \<and> semanticCheck noPolicy ordersPlan ''SELECT 1'' demoRegistry
          = Inr \<lparr>ok = False,
             issues = [''Selected entity '' @ [DQ] @ ''orders'' @ [DQ] @ '' not loaded.''],
             semanticOk = False\<rparr>"
proof -
  have h: "noPolicy demoRegistry = Inr () \<and> map fst demoRegistry = [''customers'', ''products'']
        \<and> selectedEntities ordersPlan = [''orders''] \<and> joinGraph ordersPlan = []
        \<and> orEmpty (intent_dimensions (intent ordersPlan)) = []
        \<and> orEmpty (intent_metrics (intent ordersPlan)) = []
        \<and> \<not> intent_timeRange (intent ordersPlan)"
    by (simp add: noPolicy_def demoRegistry_def ordersPlan_def orEmpty_def)
  show ?thesis
    by (rule conjI [OF h semanticCheck_not_loaded
          [where pol = noPolicy and registry = demoRegistry and plan = ordersPlan
             and sql = "''SELECT 1''", THEN conjunct2, THEN mp, OF h]])
qed

text \<open>An alias of a dimension of some entity resolves as a bare reference.\<close>

lemma alias_resolves:
  assumes "(k, ent) \<in> set registry" and "canonical \<in> dimIndex ent" and "canonical \<noteq> []"
    and "reverseAliasIndex ent alias = Some canonical" and "CHR ''.'' \<notin> set alias"
  shows "existsInAnyEntity registry alias True True"
proof -
  have "existsInEntity True True ent alias"
    using assms(2-4) by (simp add: existsInEntity_def)
  with assms(1) have "list_ex (\<lambda>kv. existsInEntity True True (snd kv) alias) registry"
    by (force simp: list_ex_iff)
  with assms(5) show ?thesis
    by (simp add: existsInAnyEntity_def includesChar_def)
qed

text \<open>
  C6. A bare dimension reference that is an alias resolves through the reverse-alias map:
  where \<open>customers\<close> has the dimension \<open>country\<close> and the alias \<open>region\<close> for it, a plan
  asking for the dimension \<open>region\<close>, with everything else in it resolvable and a silent
  policy, passes with no issue at all.
\<close>

theorem semanticCheck_alias_dimension:
  assumes "(''customers'', ent) \<in> set registry"
    and "''country'' \<in> dimIndex ent"
    and "reverseAliasIndex ent ''region'' = Some ''country''"
    and "intent_dimensions (intent plan) = Some [''region'']"
    and "pol registry = Inr ()"
    and "\<forall>e \<in> set (selectedEntities plan). has registry e"
    and "\<forall>j \<in> set (joinGraph plan). has registry (edge_from j) \<and> has registry (edge_to j)"
    and "\<forall>m \<in> set (orEmpty (intent_metrics (intent plan))). metricOrMeasureExists registry m"
    and "intent_timeRange (intent plan)
           \<longrightarrow> (\<exists>kv \<in> set registry. time_dimensions (snd kv) \<noteq> [])"
  shows "existsInAnyEntity registry ''region'' True True
    \<and> semanticCheck pol plan sql registry
        = Inr \<lparr>ok = True, issues = [], semanticOk = True\<rparr>"
proof -
  have r: "existsInAnyEntity registry ''region'' True True"
    by (rule alias_resolves [OF assms(1,2) _ assms(3)]) simp_all
  have e: "filter (\<lambda>e. \<not> has registry e) (selectedEntities plan) = []"
    using assms(6) by (simp add: filter_empty_conv)
  have j: "concat (map (joinIssues registry) (joinGraph plan)) = []"
    using assms(7) by (simp add: joinIssues_def)
  have m: "filter (\<lambda>m. \<not> metricOrMeasureExists registry m)
             (orEmpty (intent_metrics (intent plan))) = []"
    using assms(8) by (simp add: filter_empty_conv)
  have t: "\<not> (intent_timeRange (intent plan)
           \<and> \<not> list_ex (\<lambda>kv. time_dimensions (snd kv) \<noteq> []) registry)"
    using assms(9) by (simp add: list_ex_iff)
  have "laterIssues plan registry = []"
    using r j m t assms(4) by (simp add: laterIssues_def orEmpty_def)
  with e assms(5) have "semanticCheck pol plan sql registry
      = Inr \<lparr>ok = True, issues = [], semanticOk = True\<rparr>"
    by (simp add: semanticCheck_eval policyIssues_def)
  with r show ?thesis by simp
qed

theorem semanticCheck_alias_dimension_witness:
  "(''customers'', customersEntity) \<in> set demoRegistry
   \<and> ''country'' \<in> dimIndex customersEntity
   \<and> reverseAliasIndex customersEntity ''region'' = Some ''country''
   \<and> intent_dimensions (intent regionPlan) = Some [''region'']
   \<and> noPolicy demoRegistry = Inr ()
   \<and> list_all (has demoRegistry) (selectedEntities regionPlan)
   \<and> list_all (\<lambda>j. has demoRegistry (edge_from j) \<and> has demoRegistry (edge_to j))
        (joinGraph regionPlan)
   \<and> list_all (metricOrMeasureExists demoRegistry) (orEmpty (intent_metrics (intent regionPlan)))
   \<and> list_ex (\<lambda>kv. time_dimensions (snd kv) \<noteq> []) demoRegistry
   \<and> existsInAnyEntity demoRegistry ''region'' True True
   \<and> semanticCheck noPolicy regionPlan ''SELECT 1'' demoRegistry
       = Inr \<lparr>ok = True, issues = [], semanticOk = True\<rparr>"
proof -
  have h1: "(''customers'', customersEntity) \<in> set demoRegistry"
    by (simp add: demoRegistry_def)
  have h2: "''country'' \<in> dimIndex customersEntity"
    by (simp add: customersEntity_def)
  have h3: "reverseAliasIndex customersEntity ''region'' = Some ''country''"
    by (simp add: customersEntity_def)
  have h4: "intent_dimensions (intent regionPlan) = Some [''region'']"
    by (simp add: regionPlan_def)
  have h5: "noPolicy demoRegistry = Inr ()"
    by (simp add: noPolicy_def)
  have h6: "list_all (has demoRegistry) (selectedEntities regionPlan)"
    by (simp add: regionPlan_def has_def demoRegistry_def)
  have h7: "list_all (\<lambda>j. has demoRegistry (edge_from j) \<and> has demoRegistry (edge_to j))
        (joinGraph regionPlan)"
    by (simp add: regionPlan_def has_def demoRegistry_def)
  have h8: "list_all (metricOrMeasureExists demoRegistry)
        (orEmpty (intent_metrics (intent regionPlan)))"
    by (simp add: regionPlan_def orEmpty_def metricOrMeasureExists_def includesChar_def
        metricInEntity_def demoRegistry_def customersEntity_def)
  have h9: "list_ex (\<lambda>kv. time_dimensions (snd kv) \<noteq> []) demoRegistry"
    by (simp add: demoRegistry_def customersEntity_def)
  have h9': "intent_timeRange (intent regionPlan)
         \<longrightarrow> (\<exists>kv \<in> set demoRegistry. time_dimensions (snd kv) \<noteq> [])"
    using h9 by (simp add: list_ex_iff)
  note c = semanticCheck_alias_dimension
      [where pol = noPolicy and sql = "''SELECT 1''",
       OF h1 h2 h3 h4 h5 h6 [unfolded list_all_iff] h7 [unfolded list_all_iff]
          h8 [unfolded list_all_iff] h9']
  show ?thesis
    by (intro conjI h1 h2 h3 h4 h5 h6 h7 h8 h9 c [THEN conjunct1] c [THEN conjunct2])
qed

text \<open>When the policy returns, or throws anything but \<^verbatim>\<open>null\<close> or \<^verbatim>\<open>undefined\<close>, the check
  returns a result: \<open>ok\<close> and \<open>semanticOk\<close> hold exactly when no issue was pushed, and the
  thrown value has become the first issue.\<close>

lemma semanticCheck_returns:
  assumes "pol registry \<noteq> Inl ThrownNullish"
  shows "\<exists>res. semanticCheck pol plan sql registry = Inr res
     \<and> ok res = (issues res = []) \<and> semanticOk res = (issues res = [])
     \<and> (\<forall>e m. pol registry = Inl e \<longrightarrow> thrownText e = Inr m
           \<longrightarrow> (\<exists>rest. issues res = m # rest))"
proof (cases "pol registry")
  case (Inl e)
  with assms obtain m where "thrownText e = Inr m"
    by (cases e rule: thrownText.cases) auto
  with Inl show ?thesis
    by (simp add: semanticCheck_eval policyIssues_def)
next
  case (Inr u)
  then show ?thesis
    by (simp add: semanticCheck_eval policyIssues_def)
qed

lemma semanticCheck_denied:
  "\<exists>rest. semanticCheck denyPolicy ordersPlan ''SELECT 1'' demoRegistry
     = Inr \<lparr>ok = False, issues = ''Table not allowed: secrets'' # rest, semanticOk = False\<rparr>"
  by (simp add: semanticCheck_eval policyIssues_def denyPolicy_def denied_def)

text \<open>
  C7. The check is to return a result whatever happens, the policy's throw caught and turned
  into an issue. It does not when the policy throws \<^verbatim>\<open>null\<close> or \<^verbatim>\<open>undefined\<close>: the handler
  reads \<^verbatim>\<open>e.message\<close> of the thrown value, that raises a \<^verbatim>\<open>TypeError\<close>, and the error leaves
  the check, for every plan, text and registry. (\<^verbatim>\<open>errors.ts\<close> reads \<^verbatim>\<open>err?.message\<close>, which
  does not raise.)
\<close>

theorem semanticCheck_raises_on_null:
  "semanticCheck nullPolicy plan sql registry = Inl TypeError"
  by (simp add: semanticCheck_eval policyIssues_def nullPolicy_def)

section \<open>Properties of the error classifiers\<close>

lemma litCI_iff:
  "litCI lit s = Some r \<longleftrightarrow>
     (\<exists>p. s = p @ r \<and> length p = length lit \<and> map canon p = map canon lit)"
proof (induction lit s rule: litCI.induct)
  case (1 s)
  then show ?case by auto
next
  case (2 p ps)
  then show ?case by auto
next
  case (3 p ps c cs)
  show ?case
  proof
    assume "litCI (p # ps) (c # cs) = Some r"
    then have c: "canon c = canon p" and "litCI ps cs = Some r"
      by (auto split: if_splits)
    with 3 obtain q where "cs = q @ r" "length q = length ps" "map canon q = map canon ps"
      by auto
    with c have "c # cs = (c # q) @ r \<and> length (c # q) = length (p # ps)
        \<and> map canon (c # q) = map canon (p # ps)" by simp
    then show "\<exists>q. c # cs = q @ r \<and> length q = length (p # ps)
        \<and> map canon q = map canon (p # ps)" by blast
  next
    assume "\<exists>q. c # cs = q @ r \<and> length q = length (p # ps)
        \<and> map canon q = map canon (p # ps)"
    then obtain q where q: "c # cs = q @ r" "length q = length (p # ps)"
      "map canon q = map canon (p # ps)" by blast
    then obtain q' where q': "q = c # q'" by (cases q) auto
    with q have "canon c = canon p" "cs = q' @ r" "length q' = length ps"
      "map canon q' = map canon ps" by auto
    with 3 show "litCI (p # ps) (c # cs) = Some r" by auto
  qed
qed

lemma not_white_quote: "isQuote q \<Longrightarrow> \<not> isWhiteSpace q"
  by (auto simp: char_defs)

lemma quotedAfter_occurrence:
  assumes "occurrence lit m nm"
  shows "quotedAfter lit (m @ rest) = Some (m, nm, rest)"
proof -
  from assms obtain p ws q q' where m: "m = p @ ws @ [q] @ nm @ [q']"
    and p: "length p = length lit" "map canon p = map canon lit"
    and ws: "list_all isWhiteSpace ws" and q: "isQuote q" "isQuote q'"
    and nm: "nm \<noteq> []" "list_all (\<lambda>c. \<not> isQuote c) nm"
    by (auto simp: occurrence_def)
  have 1: "litCI lit (m @ rest) = Some (ws @ q # nm @ q' # rest)"
    using p by (auto simp: litCI_iff m)
  have 2: "dropWhile isWhiteSpace (ws @ q # nm @ q' # rest) = q # nm @ q' # rest"
    using ws not_white_quote [OF q(1)] by (simp add: dropWhile_append list_all_iff)
  have 3: "takeWhile (\<lambda>c. \<not> isQuote c) (nm @ q' # rest) = nm"
    using nm(2) q(2) by (simp add: takeWhile_append list_all_iff)
  have 4: "dropWhile (\<lambda>c. \<not> isQuote c) (nm @ q' # rest) = q' # rest"
    using nm(2) q(2) by (simp add: dropWhile_append list_all_iff)
  have 5: "take (length (m @ rest) - length rest) (m @ rest) = m" by simp
  show ?thesis
    using q nm(1) by (simp add: quotedAfter_def 1 2 3 4 Let_def)
qed

lemma quotedAfter_Some:
  assumes "quotedAfter lit s = Some (m, nm, rest)"
  shows "s = m @ rest \<and> occurrence lit m nm"
proof -
  from assms obtain r1 q r2 where r1: "litCI lit s = Some r1"
    and r2: "dropWhile isWhiteSpace r1 = q # r2"
    and q: "isQuote q"
    and nm: "nm = takeWhile (\<lambda>c. \<not> isQuote c) r2" "nm \<noteq> []"
    and r3: "dropWhile (\<lambda>c. \<not> isQuote c) r2 \<noteq> []"
    and rest: "rest = tl (dropWhile (\<lambda>c. \<not> isQuote c) r2)"
    and m: "m = take (length s - length rest) s"
    by (auto simp: quotedAfter_def Let_def split: option.splits list.splits if_splits)
  from r1 obtain p where p: "s = p @ r1" "length p = length lit" "map canon p = map canon lit"
    by (auto simp: litCI_iff)
  define ws where "ws = takeWhile isWhiteSpace r1"
  have r1': "r1 = ws @ q # r2"
    using r2 takeWhile_dropWhile_id [of isWhiteSpace r1] by (simp add: ws_def)
  have wsall: "list_all isWhiteSpace ws"
    by (auto simp: ws_def list_all_iff dest: set_takeWhileD)
  from r3 obtain q' where q': "dropWhile (\<lambda>c. \<not> isQuote c) r2 = q' # rest"
    using rest by (cases "dropWhile (\<lambda>c. \<not> isQuote c) r2") auto
  then have qq: "isQuote q'"
    using hd_dropWhile [of "\<lambda>c. \<not> isQuote c" r2] by auto
  have r2': "r2 = nm @ q' # rest"
    using q' takeWhile_dropWhile_id [of "\<lambda>c. \<not> isQuote c" r2] nm(1) by simp
  have nmall: "list_all (\<lambda>c. \<not> isQuote c) nm"
    by (auto simp: nm(1) list_all_iff dest: set_takeWhileD)
  have s: "s = (p @ ws @ [q] @ nm @ [q']) @ rest"
    using p(1) r1' r2' by simp
  then have "m = p @ ws @ [q] @ nm @ [q']"
    using m by (metis append_eq_conv_conj length_append add_diff_cancel_right')
  with s p(2,3) wsall q qq nm(2) nmall show ?thesis
    unfolding occurrence_def by blast
qed

lemma quotedAfter_Nil: "quotedAfter lit [] = None"
  by (cases lit) (simp_all add: quotedAfter_def)

lemma allQuoted_Nil: "allQuoted lit [] = []"
  by (subst allQuoted.simps) (simp add: quotedAfter_Nil)

lemma allQuoted_Cons:
  "allQuoted lit (c # cs) =
     (case quotedAfter lit (c # cs) of
        Some (m, nm, rest) \<Rightarrow> m # allQuoted lit rest
      | None \<Rightarrow> allQuoted lit cs)"
  by (subst allQuoted.simps) (simp split: option.splits)

lemma allQuoted_match:
  "quotedAfter lit s = Some (m, nm, rest) \<Longrightarrow> allQuoted lit s = m # allQuoted lit rest"
  by (subst allQuoted.simps) simp

lemma capture_occurrence:
  assumes "occurrence lit m nm"
  shows "capture lit m = nm"
proof -
  from quotedAfter_occurrence [OF assms, of "[]"]
  have q: "quotedAfter lit m = Some (m, nm, [])" by simp
  from assms have "m \<noteq> []" by (auto simp: occurrence_def)
  then obtain c cs where "m = c # cs" by (cases m) auto
  with q show ?thesis by (simp add: capture_def)
qed

lemma occurrences_matches:
  assumes "occurrences lit s ns"
  shows "map (capture lit) (allQuoted lit s) = ns \<and> [] \<notin> set ns"
  using assms
proof (induction rule: occurrences.induct)
  case occ_end
  then show ?case by (simp add: allQuoted_Nil)
next
  case (occ_here m nm rest ns)
  from quotedAfter_occurrence [OF occ_here.hyps(1), of rest]
  have "allQuoted lit (m @ rest) = m # allQuoted lit rest"
    by (rule allQuoted_match)
  moreover have "nm \<noteq> []" using occ_here.hyps(1) by (auto simp: occurrence_def)
  ultimately show ?case
    using occ_here.IH capture_occurrence [OF occ_here.hyps(1)] by auto
next
  case (occ_skip c cs ns)
  have "quotedAfter lit (c # cs) = None"
  proof (cases "quotedAfter lit (c # cs)")
    case (Some t)
    obtain m nm rest where "t = (m, nm, rest)" by (cases t) auto
    with Some quotedAfter_Some [of lit "c # cs" m nm rest] occ_skip.hyps(1)
    show ?thesis by blast
  qed simp
  then show ?case using occ_skip.IH by (simp add: allQuoted_Cons)
qed

lemma occurrences_total: "occurrences lit s (map (capture lit) (allQuoted lit s))"
proof (induction lit s rule: allQuoted.induct)
  case (1 lit s)
  show ?case
  proof (cases "quotedAfter lit s")
    case None
    show ?thesis
    proof (cases s)
      case Nil
      then show ?thesis by (simp add: allQuoted_Nil occ_end)
    next
      case (Cons c cs)
      have a: "\<not> (\<exists>m nm rest. c # cs = m @ rest \<and> occurrence lit m nm)"
      proof
        assume "\<exists>m nm rest. c # cs = m @ rest \<and> occurrence lit m nm"
        then obtain m nm rest where "c # cs = m @ rest" "occurrence lit m nm" by blast
        then have "quotedAfter lit (c # cs) = Some (m, nm, rest)"
          using quotedAfter_occurrence [of lit m nm rest] by simp
        with None Cons show False by simp
      qed
      have b: "occurrences lit cs (map (capture lit) (allQuoted lit cs))"
        by (rule "1.IH"(1) [OF None Cons])
      have "allQuoted lit (c # cs) = allQuoted lit cs"
        using None Cons by (simp add: allQuoted_Cons)
      with occ_skip [OF a b] show ?thesis
        unfolding Cons by simp
    qed
  next
    case (Some t)
    obtain m nm rest where t: "t = (m, nm, rest)" by (cases t) auto
    have q: "quotedAfter lit s = Some (m, nm, rest)" using Some t by simp
    from quotedAfter_Some [OF q]
    have s: "s = m @ rest" and o: "occurrence lit m nm" by auto
    have b: "occurrences lit rest (map (capture lit) (allQuoted lit rest))"
      by (rule "1.IH"(2) [OF Some, of m "(nm, rest)" nm rest]) (simp_all add: t)
    have "map (capture lit) (allQuoted lit s) = nm # map (capture lit) (allQuoted lit rest)"
      using allQuoted_match [OF q] capture_occurrence [OF o] by simp
    with occ_here [OF o b] show ?thesis
      unfolding s by simp
  qed
qed

lemma filter_removeAll:
  "filter P (removeAll x ys) = filter (\<lambda>y. P y \<and> y \<noteq> x) ys"
  by (induction ys) auto

lemma fromSet_fold:
  "foldl (\<lambda>seen x. if x \<in> set seen then seen else seen @ [x]) acc xs
     = acc @ filter (\<lambda>y. y \<notin> set acc) (firstSeen xs)"
proof (induction xs arbitrary: acc)
  case Nil
  then show ?case by simp
next
  case (Cons x xs)
  show ?case
  proof (cases "x \<in> set acc")
    case True
    then have "filter (\<lambda>y. y \<notin> set acc \<and> y \<noteq> x) (firstSeen xs)
        = filter (\<lambda>y. y \<notin> set acc) (firstSeen xs)"
      by (intro filter_cong) auto
    with True Cons show ?thesis by (simp add: filter_removeAll)
  next
    case False
    have "filter (\<lambda>y. y \<notin> set (acc @ [x])) (firstSeen xs)
        = filter (\<lambda>y. y \<notin> set acc \<and> y \<noteq> x) (firstSeen xs)"
      by (intro filter_cong) auto
    with False Cons [of "acc @ [x]"] show ?thesis by (simp add: filter_removeAll)
  qed
qed

lemma fromSet_firstSeen: "fromSet xs = firstSeen xs"
  by (simp add: fromSet_def fromSet_fold)

lemma firstSeen_set: "set (firstSeen xs) = set xs"
  by (induction xs) auto

lemma firstSeen_distinct: "distinct (firstSeen xs)"
  by (induction xs) (auto simp: distinct_removeAll)

lemmas err_eval = isColumnNotFound_def isQuoteSyntaxError_def looksLikeLiteral_def
  singleQuotesHint_def capsOnly_def quotedAfter_def columnNotFoundAt_def allQuoted_Nil
  allQuoted_Cons capture_def stripSurroundingQuotes_def Let_def

lemma isColumnNotFound_alt:
  "isColumnNotFound err =
     (let msg = errMessage err;
          ns = map (capture ''invalid identifier'') (allQuoted ''invalid identifier'' msg)
      in if ns \<noteq> [] then Some \<lparr>missingColumns = fromSet (filter (\<lambda>x. x \<noteq> []) ns)\<rparr>
         else if columnAnyNotFound msg then
           (let c = (case firstColumnNotFound msg of Some nm \<Rightarrow> nm | None \<Rightarrow> [])
            in Some \<lparr>missingColumns =
                 (if c \<noteq> [] then [filter (\<lambda>x. \<not> isQuote x) c] else [])\<rparr>)
         else None)"
proof -
  have "capture ''invalid identifier''
      = (\<lambda>s. case firstQuoted ''invalid identifier'' s of Some (_, nm, _) \<Rightarrow> nm | None \<Rightarrow> [])"
    by (rule ext) (simp add: capture_def)
  then show ?thesis
    by (simp add: isColumnNotFound_def Let_def)
qed

lemma columnNotFound_nonempty: "firstColumnNotFound s = Some nm \<Longrightarrow> nm \<noteq> []"
  by (induction s) (auto simp: columnNotFoundAt_def Let_def split: option.splits if_splits)

lemma names_found:
  assumes "occurrences ''invalid identifier'' (errMessage err) ns" and "ns \<noteq> []"
  shows "isColumnNotFound err = Some \<lparr>missingColumns = firstSeen ns\<rparr>"
proof -
  from occurrences_matches [OF assms(1)]
  have m: "map (capture ''invalid identifier'')
      (allQuoted ''invalid identifier'' (errMessage err)) = ns"
    and ne: "[] \<notin> set ns" by auto
  from ne have "filter (\<lambda>x. x \<noteq> []) ns = ns"
    by (induction ns) auto
  then show ?thesis
    unfolding isColumnNotFound_alt Let_def m using assms(2)
    by (simp add: fromSet_firstSeen)
qed

lemma fallback_name:
  assumes "occurrences ''invalid identifier'' (errMessage err) []"
    and "columnAnyNotFound (errMessage err)"
    and "firstColumnNotFound (errMessage err) = Some nm"
  shows "isColumnNotFound err = Some \<lparr>missingColumns = [filter (\<lambda>c. \<not> isQuote c) nm]\<rparr>"
proof -
  from occurrences_matches [OF assms(1)]
  have "map (capture ''invalid identifier'')
      (allQuoted ''invalid identifier'' (errMessage err)) = []" by simp
  then show ?thesis
    unfolding isColumnNotFound_alt Let_def
    using assms(2,3) columnNotFound_nonempty [OF assms(3)] by simp
qed

text \<open>When the captured name holds no line break, the test with \<^verbatim>\<open>.*\<close> passes too.\<close>

lemma dotStarThen_name:
  assumes "litCI lit r \<noteq> None" and "list_all (\<lambda>c. \<not> isLineTerminator c) nm"
  shows "dotStarThen lit (nm @ r)"
  using assms
proof (induction nm)
  case Nil
  then show ?case by (cases r) auto
next
  case (Cons c cs)
  then show ?case by simp
qed

lemma columnNotFoundAt_any:
  assumes "columnNotFoundAt s = Some nm" and "list_all (\<lambda>c. \<not> isLineTerminator c) nm"
  shows "\<exists>r. litCI ''column '' s = Some r \<and> dotStarThen '' not found'' r"
proof -
  from assms(1) obtain r where r: "litCI ''column '' s = Some r"
    and nm: "nm = takeWhile (\<lambda>c. c \<noteq> CHR '' '') r"
    and l: "litCI '' not found'' (dropWhile (\<lambda>c. c \<noteq> CHR '' '') r) \<noteq> None"
    by (auto simp: columnNotFoundAt_def Let_def split: option.splits if_splits)
  have "r = nm @ dropWhile (\<lambda>c. c \<noteq> CHR '' '') r"
    by (simp add: nm)
  with dotStarThen_name [OF l assms(2)] have "dotStarThen '' not found'' r"
    by simp
  with r show ?thesis by blast
qed

lemma columnAnyNotFound_name:
  assumes "firstColumnNotFound s = Some nm" and "list_all (\<lambda>c. \<not> isLineTerminator c) nm"
  shows "columnAnyNotFound s"
  using assms(1)
proof (induction s)
  case Nil
  then show ?case by simp
next
  case (Cons c cs)
  show ?case
  proof (cases "columnNotFoundAt (c # cs)")
    case None
    with Cons show ?thesis by simp
  next
    case (Some n)
    with Cons.prems have "columnNotFoundAt (c # cs) = Some nm" by simp
    from columnNotFoundAt_any [OF this assms(2)] show ?thesis by auto
  qed
qed

lemma foo_example:
  "isColumnNotFound (ErrValue (Some (''invalid identifier '' @ [SQ] @ ''FOO'' @ [SQ])) s)
     = Some \<lparr>missingColumns = [''FOO'']\<rparr>"
  by (simp add: err_eval fromSet_def char_defs)

text \<open>
  C8, as the code has it. When the message holds occurrences of \<open>invalid identifier\<close> followed
  by a quoted name (in any letter case), the classifier returns their names without
  repetitions, each where it first stood; \<open>invalid identifier 'FOO'\<close> gives \<open>FOO\<close>. When
  there is no such occurrence, the message passes \<^verbatim>\<open>/column .* not found/i\<close> and the leftmost
  match of \<^verbatim>\<open>/column ([^ ]+) not found/i\<close> captures a name, the classifier returns that name
  with every quote character removed, wherever it stands in the name.
\<close>

theorem isColumnNotFound_names:
  "(occurrences ''invalid identifier'' (errMessage err) ns \<and> ns \<noteq> []
      \<longrightarrow> isColumnNotFound err = Some \<lparr>missingColumns = firstSeen ns\<rparr>)
   \<and> isColumnNotFound (ErrValue (Some (''invalid identifier '' @ [SQ] @ ''FOO'' @ [SQ])) s)
       = Some \<lparr>missingColumns = [''FOO'']\<rparr>
   \<and> (occurrences ''invalid identifier'' (errMessage err) []
        \<and> columnAnyNotFound (errMessage err)
        \<and> firstColumnNotFound (errMessage err) = Some nm
      \<longrightarrow> isColumnNotFound err = Some \<lparr>missingColumns = [filter (\<lambda>c. \<not> isQuote c) nm]\<rparr>)"
  using names_found [of err ns] foo_example [of s] fallback_name [of err nm] by blast

lemma two_names:
  "map (capture ''invalid identifier'') (allQuoted ''invalid identifier'' twoColumnsMessage)
     = [''FOO'', ''BAR'', ''FOO'']"
  by (simp add: twoColumnsMessage_def err_eval char_defs)

lemma quoted_none:
  "map (capture ''invalid identifier'') (allQuoted ''invalid identifier'' quotedColumnMessage) = []"
  by (simp add: quotedColumnMessage_def err_eval char_defs)

lemma obrien_none:
  "map (capture ''invalid identifier'') (allQuoted ''invalid identifier'' obrienMessage) = []"
  by (simp add: obrienMessage_def err_eval char_defs)

theorem isColumnNotFound_names_witness:
  "occurrences ''invalid identifier'' (errMessage (ErrValue (Some twoColumnsMessage) ''Error''))
     [''FOO'', ''BAR'', ''FOO'']
   \<and> isColumnNotFound (ErrValue (Some twoColumnsMessage) ''Error'')
       = Some \<lparr>missingColumns = [''FOO'', ''BAR'']\<rparr>
   \<and> occurrences ''invalid identifier'' (errMessage (ErrValue None quotedColumnMessage)) []
   \<and> columnAnyNotFound (errMessage (ErrValue None quotedColumnMessage))
   \<and> firstColumnNotFound (errMessage (ErrValue None quotedColumnMessage))
       = Some ([DQ] @ ''name'' @ [DQ])
   \<and> isColumnNotFound (ErrValue None quotedColumnMessage)
       = Some \<lparr>missingColumns = [''name'']\<rparr>"
proof -
  let ?e1 = "ErrValue (Some twoColumnsMessage) ''Error''"
  let ?e2 = "ErrValue None quotedColumnMessage"
  have a: "occurrences ''invalid identifier'' (errMessage ?e1) [''FOO'', ''BAR'', ''FOO'']"
    using occurrences_total [of "''invalid identifier''" twoColumnsMessage]
    unfolding two_names by simp
  have n: "[''FOO'', ''BAR'', ''FOO''] \<noteq> []" by simp
  have b: "occurrences ''invalid identifier'' (errMessage ?e2) []"
    using occurrences_total [of "''invalid identifier''" quotedColumnMessage]
    unfolding quoted_none by simp
  have c: "columnAnyNotFound (errMessage ?e2)"
    by (simp add: quotedColumnMessage_def char_defs)
  have d: "firstColumnNotFound (errMessage ?e2) = Some ([DQ] @ ''name'' @ [DQ])"
    by (simp add: quotedColumnMessage_def err_eval char_defs)
  have f: "firstSeen [''FOO'', ''BAR'', ''FOO''] = [''FOO'', ''BAR'']" by simp
  have g: "filter (\<lambda>c. \<not> isQuote c) ([DQ] @ ''name'' @ [DQ]) = ''name''"
    by (simp add: isQuote_def)
  note t1 = isColumnNotFound_names [of ?e1 "[''FOO'', ''BAR'', ''FOO'']", THEN conjunct1,
      THEN mp, OF conjI [OF a n], unfolded f]
  note t2 = isColumnNotFound_names [of ?e2 _ _ "[DQ] @ ''name'' @ [DQ]", THEN conjunct2,
      THEN conjunct2, THEN mp, OF conjI [OF b conjI [OF c d]], unfolded g]
  show ?thesis
    by (intro conjI a t1 b c d t2)
qed

text \<open>
  C8 as stated fails: in \<open>column o'brien not found\<close> the captured name has no quote around
  it, so stripping the surrounding quotes leaves it as it is, and the classifier returns
  \<open>obrien\<close>.
\<close>

theorem isColumnNotFound_strip_counterexample:
  "occurrences ''invalid identifier'' obrienMessage []
   \<and> firstColumnNotFound obrienMessage = Some (''o'' @ [SQ] @ ''brien'')
   \<and> stripSurroundingQuotes (''o'' @ [SQ] @ ''brien'') = ''o'' @ [SQ] @ ''brien''
   \<and> isColumnNotFound (ErrValue (Some obrienMessage) ''Error'')
       = Some \<lparr>missingColumns = [''obrien'']\<rparr>
   \<and> isColumnNotFound (ErrValue (Some obrienMessage) ''Error'')
       \<noteq> Some \<lparr>missingColumns = [stripSurroundingQuotes (''o'' @ [SQ] @ ''brien'')]\<rparr>"
proof -
  have a: "occurrences ''invalid identifier'' obrienMessage []"
    using occurrences_total [of "''invalid identifier''" obrienMessage]
    unfolding obrien_none by simp
  have b: "firstColumnNotFound obrienMessage = Some (''o'' @ [SQ] @ ''brien'')"
    by (simp add: obrienMessage_def err_eval char_defs)
  have c: "stripSurroundingQuotes (''o'' @ [SQ] @ ''brien'') = ''o'' @ [SQ] @ ''brien''"
    by (simp add: stripSurroundingQuotes_def isQuote_def)
  have d: "isColumnNotFound (ErrValue (Some obrienMessage) ''Error'')
       = Some \<lparr>missingColumns = [''obrien'']\<rparr>"
    by (simp add: obrienMessage_def err_eval char_defs)
  have e: "isColumnNotFound (ErrValue (Some obrienMessage) ''Error'')
       \<noteq> Some \<lparr>missingColumns = [stripSurroundingQuotes (''o'' @ [SQ] @ ''brien'')]\<rparr>"
    unfolding c d by simp
  show ?thesis
    by (intro conjI a b c d e)
qed

text \<open>A name with a line break in it matches the second pattern and not the first test:
  the classifier returns nothing.\<close>

lemma isColumnNotFound_line_break:
  "firstColumnNotFound (''column a'' @ [CHR 0x0A] @ ''b not found'') = Some (''a'' @ [CHR 0x0A] @ ''b'')
   \<and> isColumnNotFound (ErrValue (Some (''column a'' @ [CHR 0x0A] @ ''b not found'')) ''Error'') = None"
  by (simp add: err_eval char_defs)

lemma litCI_append:
  "litCI (a @ b) s = (case litCI a s of None \<Rightarrow> None | Some r \<Rightarrow> litCI b r)"
  by (induction a s rule: litCI.induct) auto

lemma quotedAfter_prefix:
  "quotedAfter (a @ b) s = Some x \<Longrightarrow> litCI a s \<noteq> None"
  by (auto simp: quotedAfter_def litCI_append split: option.splits)

lemma firstQuoted_contains:
  "firstQuoted (a @ b) s = Some x \<Longrightarrow> containsCI a s"
proof (induction s)
  case Nil
  then show ?case by (simp add: quotedAfter_Nil)
next
  case (Cons c cs)
  show ?case
  proof (cases "quotedAfter (a @ b) (c # cs)")
    case None
    with Cons show ?thesis by simp
  next
    case (Some y)
    from quotedAfter_prefix [OF Some] show ?thesis by simp
  qed
qed

lemma firstQuoted_name: "firstQuoted lit s = Some (m, nm, rest) \<Longrightarrow> nm \<noteq> []"
proof (induction s)
  case Nil
  then show ?case by (simp add: quotedAfter_Nil)
next
  case (Cons c cs)
  show ?case
  proof (cases "quotedAfter lit (c # cs)")
    case None
    with Cons show ?thesis by simp
  next
    case (Some y)
    with Cons.prems have "quotedAfter lit (c # cs) = Some (m, nm, rest)" by simp
    from quotedAfter_Some [OF this] show ?thesis by (auto simp: occurrence_def)
  qed
qed

text \<open>
  C9, as the code has it. For a message that holds \<open>no such column:\<close> with a quoted name
  behind it and meets neither of the two other conditions, the classifier returns the
  single-quotes hint exactly when the first character of the (leftmost) captured name is one
  that upper-casing leaves as it is (a capital, but also a digit, an underscore or any other
  character without case) and the name is not made of \<open>A-Z\<close> and underscores only; otherwise
  it returns nothing.
\<close>

theorem isQuoteSyntaxError_no_such_column:
  assumes "errMessage err = msg"
    and "\<not> (containsCI ''unrecognized token'' msg \<and> DQ \<in> set msg)"
    and "\<not> ((containsCI ''syntax error'' msg \<or> containsCI ''near'' msg) \<and> DQ \<in> set msg)"
    and "firstQuoted ''no such column:'' msg = Some (m, colName, rest)"
  shows "isQuoteSyntaxError err =
     (if fixedByToUpperCase (hd colName) \<and> \<not> capsOnly colName
      then Some \<lparr>message = msg, needsSingleQuotes = Some True, needsDoubleQuotes = None\<rparr>
      else None)"
proof -
  have "firstQuoted (''no such column'' @ '':'') msg = Some (m, colName, rest)"
    using assms(4) by simp
  then have c: "containsCI ''no such column'' msg"
    by (rule firstQuoted_contains)
  from firstQuoted_name [OF assms(4)] obtain x xs where n: "colName = x # xs"
    by (cases colName) auto
  have "looksLikeLiteral msg = (fixedByToUpperCase (hd colName) \<and> \<not> capsOnly colName)"
    unfolding looksLikeLiteral_def assms(4) using c n by simp
  then show ?thesis
    using assms(1-3) by (auto simp: isQuoteSyntaxError_def singleQuotesHint_def)
qed

theorem isQuoteSyntaxError_no_such_column_witness:
  "errMessage (ErrValue (Some technologyMessage) ''Error'') = technologyMessage
   \<and> \<not> (containsCI ''unrecognized token'' technologyMessage \<and> DQ \<in> set technologyMessage)
   \<and> \<not> ((containsCI ''syntax error'' technologyMessage \<or> containsCI ''near'' technologyMessage)
          \<and> DQ \<in> set technologyMessage)
   \<and> firstQuoted ''no such column:'' technologyMessage
       = Some (''no such column: '' @ [DQ] @ ''Technology'' @ [DQ], ''Technology'', [])
   \<and> isQuoteSyntaxError (ErrValue (Some technologyMessage) ''Error'')
       = Some \<lparr>message = technologyMessage, needsSingleQuotes = Some True,
               needsDoubleQuotes = None\<rparr>"
proof -
  have a: "errMessage (ErrValue (Some technologyMessage) ''Error'') = technologyMessage"
    by simp
  have b: "\<not> (containsCI ''unrecognized token'' technologyMessage
          \<and> DQ \<in> set technologyMessage)"
    by (simp add: technologyMessage_def char_defs)
  have c: "\<not> ((containsCI ''syntax error'' technologyMessage
            \<or> containsCI ''near'' technologyMessage) \<and> DQ \<in> set technologyMessage)"
    by (simp add: technologyMessage_def char_defs)
  have d: "firstQuoted ''no such column:'' technologyMessage
       = Some (''no such column: '' @ [DQ] @ ''Technology'' @ [DQ], ''Technology'', [])"
    by (simp add: technologyMessage_def err_eval char_defs)
  have e: "fixedByToUpperCase (hd ''Technology'') \<and> \<not> capsOnly ''Technology''"
    by (simp add: capsOnly_def char_defs)
  note t = isQuoteSyntaxError_no_such_column [OF a b c d]
  have f: "isQuoteSyntaxError (ErrValue (Some technologyMessage) ''Error'')
       = Some \<lparr>message = technologyMessage, needsSingleQuotes = Some True,
               needsDoubleQuotes = None\<rparr>"
    unfolding t using e by simp
  show ?thesis
    by (intro conjI a b c d f)
qed

text \<open>
  C9 as stated fails: the name \<open>2nd_quarter\<close> does not start with a capital letter, the
  message meets neither of the other conditions, and the classifier returns the hint.
\<close>

theorem isQuoteSyntaxError_uppercase_counterexample:
  "\<not> containsCI ''unrecognized token'' quarterMessage
   \<and> \<not> containsCI ''syntax error'' quarterMessage
   \<and> \<not> containsCI ''near'' quarterMessage
   \<and> DQ \<notin> set quarterMessage
   \<and> firstQuoted ''no such column:'' quarterMessage = Some (quarterMessage, ''2nd_quarter'', [])
   \<and> \<not> isUpperLetter (hd ''2nd_quarter'')
   \<and> isQuoteSyntaxError (ErrValue (Some quarterMessage) ''Error'')
       = Some \<lparr>message = quarterMessage, needsSingleQuotes = Some True,
               needsDoubleQuotes = None\<rparr>"
  by (simp add: quarterMessage_def err_eval char_defs)

end
